theory Spec2Isabelle
  imports Complex_Main "HOL-Library.Word" "HOL-Library.Multiset"
begin

section \<open>Click aggregation backend (react-football/backend/main.go)\<close>

text \<open>
  The Go service keeps one process-wide \<open>Storage\<close> value behind a read/write mutex. Every
  function below is the body of one critical section of \<open>main.go\<close>, taking the storage
  (and, for the persistence functions, the contents of the Redis server) and returning the
  updated one. \<open>time.Now()\<close> is an argument. Log output is not part of the model.
\<close>

subsection \<open>Machine integers and time\<close>

type_synonym int64 = "64 word"

text \<open>
  A \<open>time.Time\<close> is the number of nanoseconds since the Unix epoch, a
  \<open>time.Duration\<close> a number of nanoseconds in the range of a signed 64-bit integer.
\<close>

type_synonym Time = int
type_synonym Duration = int

definition maxDuration :: Duration where
  "maxDuration = 2 ^ 63 - 1"

definition minDuration :: Duration where
  "minDuration = - (2 ^ 63)"

definition Millisecond :: Duration where
  "Millisecond = 1000000"

definition Second :: Duration where
  "Second = 1000000000"

definition Minute :: Duration where
  "Minute = 60 * Second"

text \<open>\<open>t.Sub(u)\<close>: the difference, saturated at the largest and smallest duration.\<close>

definition Sub :: "Time \<Rightarrow> Time \<Rightarrow> Duration" where
  "Sub t u = (let d = t - u in
     if d > maxDuration then maxDuration
     else if d < minDuration then minDuration
     else d)"

text \<open>\<open>time.Since(t)\<close> is \<open>time.Now().Sub(t)\<close>.\<close>

definition Since :: "Time \<Rightarrow> Time \<Rightarrow> Duration" where
  "Since now t = Sub now t"

text \<open>\<open>t.Unix()\<close>: whole seconds since the epoch.\<close>

definition Unix :: "Time \<Rightarrow> int64" where
  "Unix t = word_of_int (t div Second)"

text \<open>
  \<open>time.Unix(sec, 0)\<close> keeps \<open>sec + unixToInternal\<close>, the seconds since January 1 of
  year 1, in an \<open>int64\<close>: the addition wraps around, so that a \<open>sec\<close> above
  \<open>2 ^ 63 - 1 - 62135596800\<close> gives an instant \<open>2 ^ 64\<close> seconds earlier.
\<close>

definition unixToInternal :: int64 where
  "unixToInternal = 62135596800"

definition time_Unix :: "int64 \<Rightarrow> Time" where
  "time_Unix sec = (sint (sec + unixToInternal) - sint unixToInternal) * Second"

subsection \<open>Configuration\<close>

definition rateLimitTime :: Duration where
  "rateLimitTime = 100 * Millisecond"

definition saveInterval :: Duration where
  "saveInterval = 10 * Minute"

subsection \<open>Data structures\<close>

text \<open>
  \<open>ClickPayload\<close>: the field \<open>Clicks\<close> is a Go \<open>int\<close>, 64 bits wide on the platforms
  the service is built for.
\<close>

record ClickPayload =
  Country :: string
  Clicks :: int64

record Storage =
  countryClicks :: "string \<rightharpoonup> int64"
  lastClickIP :: "string \<rightharpoonup> Time"
  startTime :: Time
  dirty :: bool

text \<open>The storage as the process creates it, at time \<open>now\<close>.\<close>

definition new_storage :: "Time \<Rightarrow> Storage" where
  "new_storage now =
     \<lparr>countryClicks = Map.empty, lastClickIP = Map.empty, startTime = now, dirty = False\<rparr>"

subsection \<open>Rate limiter\<close>

definition checkRateLimit :: "Time \<Rightarrow> string \<Rightarrow> Storage \<Rightarrow> bool \<times> Storage" where
  "checkRateLimit now ip s =
     (case lastClickIP s ip of
        Some lastClick \<Rightarrow>
          if Sub now lastClick < rateLimitTime then (False, s)
          else (True, s\<lparr>lastClickIP := (lastClickIP s)(ip \<mapsto> now)\<rparr>)
      | None \<Rightarrow> (True, s\<lparr>lastClickIP := (lastClickIP s)(ip \<mapsto> now)\<rparr>))"

subsection \<open>Counter store\<close>

text \<open>
  \<open>storage.countryClicks[country] += clicks\<close>: a missing key reads as 0, and the
  addition is that of \<open>int64\<close>, which wraps around.
\<close>

definition lookup0 :: "(string \<rightharpoonup> int64) \<Rightarrow> string \<Rightarrow> int64" where
  "lookup0 m country = (case m country of Some v \<Rightarrow> v | None \<Rightarrow> 0)"

definition incrementClicks :: "string \<Rightarrow> int64 \<Rightarrow> Storage \<Rightarrow> Storage" where
  "incrementClicks country clicks s =
     s\<lparr>countryClicks := (countryClicks s)(country \<mapsto> lookup0 (countryClicks s) country + clicks),
       dirty := True\<rparr>"

text \<open>A sequence of calls of \<open>incrementClicks\<close>, each with its country and delta.\<close>

definition increments :: "(string \<times> int64) list \<Rightarrow> Storage \<Rightarrow> Storage" where
  "increments incs s = fold (\<lambda>(country, clicks). incrementClicks country clicks) incs s"

subsection \<open>Click handler\<close>

text \<open>
  A request is represented by what the handler reads from it: the client address that
  \<open>getClientIP\<close> derives from its headers, and the outcome of decoding its body as
  JSON (\<open>None\<close> when \<open>Decode\<close> returns an error).
\<close>

record Request =
  clientIP :: string
  body :: "ClickPayload option"

datatype Response = StatusOK | StatusBadRequest | StatusTooManyRequests

text \<open>The validation of a decoded payload, in the order of the source.\<close>

definition validate :: "ClickPayload \<Rightarrow> ClickPayload" where
  "validate payload =
     (let p1 = (if Country payload = [] then payload\<lparr>Country := ''Unknown''\<rparr> else payload);
          p2 = (if sint (Clicks p1) < 1 then p1\<lparr>Clicks := 1\<rparr> else p1);
          p3 = (if sint (Clicks p2) > 10 then p2\<lparr>Clicks := 10\<rparr> else p2)
      in p3)"

definition handleClick :: "Time \<Rightarrow> Request \<Rightarrow> Storage \<Rightarrow> Response \<times> Storage" where
  "handleClick now r s =
     (case checkRateLimit now (clientIP r) s of
        (False, s1) \<Rightarrow> (StatusTooManyRequests, s1)
      | (True, s1) \<Rightarrow>
          (case body r of
             None \<Rightarrow> (StatusBadRequest, s1)
           | Some payload \<Rightarrow>
               (let p = validate payload
                in (StatusOK, incrementClicks (Country p) (Clicks p) s1))))"

subsection \<open>Number formatting and parsing (strconv)\<close>

text \<open>
  \<open>strconv.ParseInt(s, 10, 64)\<close> and the decimal formatting the Redis client applies to an
  \<open>int64\<close> argument (\<open>strconv.AppendInt(b, n, 10)\<close>), following the library: an optional
  sign, then \<open>ParseUint\<close> over the digits with its two range checks, then the signed range
  check. The accumulator is a natural number; the checks keep it below \<open>2 ^ 64\<close>.
\<close>

datatype NumError = ErrSyntax | ErrRange

definition maxUint64 :: nat where
  "maxUint64 = 2 ^ 64 - 1"

definition digit_of :: "char \<Rightarrow> nat option" where
  "digit_of c = (let v = (of_char c :: nat) in if 48 \<le> v \<and> v \<le> 57 then Some (v - 48) else None)"

fun ParseUint_loop :: "nat \<Rightarrow> string \<Rightarrow> NumError + nat" where
  "ParseUint_loop n [] = Inr n"
| "ParseUint_loop n (c # cs) =
     (case digit_of c of
        None \<Rightarrow> Inl ErrSyntax
      | Some d \<Rightarrow>
          if n \<ge> maxUint64 div 10 + 1 then Inl ErrRange
          else let n1 = n * 10 + d in
            if n1 > maxUint64 then Inl ErrRange
            else ParseUint_loop n1 cs)"

definition ParseUint :: "string \<Rightarrow> NumError + nat" where
  "ParseUint s = (if s = [] then Inl ErrSyntax else ParseUint_loop 0 s)"

definition ParseInt :: "string \<Rightarrow> NumError + int64" where
  "ParseInt s =
     (case s of
        [] \<Rightarrow> Inl ErrSyntax
      | c # cs \<Rightarrow>
          (let neg = (c = CHR ''-'');
               s1 = (if c = CHR ''+'' \<or> c = CHR ''-'' then cs else s)
           in case ParseUint s1 of
                Inl e \<Rightarrow> Inl e
              | Inr un \<Rightarrow>
                  if \<not> neg \<and> un \<ge> 2 ^ 63 then Inl ErrRange
                  else if neg \<and> un > 2 ^ 63 then Inl ErrRange
                  else Inr (if neg then - word_of_nat un else word_of_nat un)))"

definition digit_char :: "nat \<Rightarrow> char" where
  "digit_char d = ''0123456789'' ! d"

fun digits :: "nat \<Rightarrow> string" where
  "digits n = (if n < 10 then [digit_char n]
               else digits (n div 10) @ [digit_char (n mod 10)])"

declare digits.simps [simp del]

definition FormatInt :: "int64 \<Rightarrow> string" where
  "FormatInt i = (if sint i < 0 then CHR ''-'' # digits (nat (- sint i)) else digits (nat (sint i)))"

text \<open>
  What \<open>ParseInt\<close> is documented to accept in base 10: a decimal numeral with an
  optional sign. \<open>int_of_string\<close> is the integer such a string denotes, of any size; it
  is not taken from the library's code, and \<open>ParseInt\<close> is compared with it below.
\<close>

definition is_decimal :: "string \<Rightarrow> bool" where
  "is_decimal ds \<longleftrightarrow> ds \<noteq> [] \<and> list_all (\<lambda>c. digit_of c \<noteq> None) ds"

definition decimal_value :: "nat \<Rightarrow> string \<Rightarrow> nat" where
  "decimal_value n ds = foldl (\<lambda>n c. n * 10 + the (digit_of c)) n ds"

definition int_of_string :: "string \<Rightarrow> int option" where
  "int_of_string s =
     (case s of
        [] \<Rightarrow> None
      | c # cs \<Rightarrow>
          if c = CHR ''-'' then (if is_decimal cs then Some (- int (decimal_value 0 cs)) else None)
          else if c = CHR ''+'' then (if is_decimal cs then Some (int (decimal_value 0 cs)) else None)
          else if is_decimal s then Some (int (decimal_value 0 s)) else None)"

subsection \<open>The Redis server\<close>

text \<open>
  The two keys the service uses: the hash \<open>football:clicks\<close> (country to decimal string)
  and the string \<open>football:start_time\<close>. Each command takes a flag saying whether the
  server answers it; a command that is not answered returns an error and leaves the
  contents as they are. \<open>hset_issued\<close> counts the \<open>HSET\<close> commands the client has sent.
\<close>

record Redis =
  clicks_hash :: "string \<rightharpoonup> string"
  start_time_key :: "string option"
  hset_issued :: nat

definition empty_redis :: Redis where
  "empty_redis = \<lparr>clicks_hash = Map.empty, start_time_key = None, hset_issued = 0\<rparr>"

datatype RedisError = RedisNil | RedisFailure

definition redis_HGetAll :: "bool \<Rightarrow> Redis \<Rightarrow> RedisError + (string \<rightharpoonup> string)" where
  "redis_HGetAll up rd = (if up then Inr (clicks_hash rd) else Inl RedisFailure)"

definition redis_Get :: "bool \<Rightarrow> Redis \<Rightarrow> RedisError + string" where
  "redis_Get up rd =
     (if up then (case start_time_key rd of None \<Rightarrow> Inl RedisNil | Some v \<Rightarrow> Inr v)
      else Inl RedisFailure)"

definition redis_Set :: "bool \<Rightarrow> string \<Rightarrow> Redis \<Rightarrow> Redis" where
  "redis_Set up v rd = (if up then rd\<lparr>start_time_key := Some v\<rparr> else rd)"

text \<open>\<open>HSET\<close> sets the given fields and keeps every other field of the hash.\<close>

definition redis_HSet :: "bool \<Rightarrow> (string \<rightharpoonup> string) \<Rightarrow> Redis \<Rightarrow> RedisError option \<times> Redis" where
  "redis_HSet up values rd =
     (if up then (None, rd\<lparr>clicks_hash := clicks_hash rd ++ values, hset_issued := hset_issued rd + 1\<rparr>)
      else (Some RedisFailure, rd\<lparr>hset_issued := hset_issued rd + 1\<rparr>))"

subsection \<open>Persistence\<close>

datatype Error = FailedToLoadClicks | FailedToSaveClicks

text \<open>
  The loop of \<open>loadFromRedis\<close> over the entries of \<open>clicksData\<close>, in the order
  \<open>range\<close> yields them, and its result as a map: the keys of a Go map are distinct, so
  the order does not matter (\<open>load_loop_eq\<close> below).
\<close>

fun load_loop :: "(string \<times> string) list \<Rightarrow> (string \<rightharpoonup> int64) \<Rightarrow> (string \<rightharpoonup> int64)" where
  "load_loop [] m = m"
| "load_loop ((country, clicksStr) # rest) m =
     (case ParseInt clicksStr of
        Inr clicks \<Rightarrow> load_loop rest (m(country \<mapsto> clicks))
      | Inl err \<Rightarrow> load_loop rest m)"

definition load_clicks :: "(string \<rightharpoonup> string) \<Rightarrow> (string \<rightharpoonup> int64) \<Rightarrow> (string \<rightharpoonup> int64)" where
  "load_clicks clicksData m =
     (\<lambda>country. case clicksData country of
        None \<Rightarrow> m country
      | Some clicksStr \<Rightarrow>
          (case ParseInt clicksStr of Inr clicks \<Rightarrow> Some clicks | Inl err \<Rightarrow> m country))"

text \<open>
  \<open>loadFromRedis\<close>; \<open>hgetall_up\<close>, \<open>get_up\<close> and \<open>set_up\<close> say whether the server
  answers the three commands. The result of \<open>Set\<close> is ignored, as in the source.
\<close>

definition loadFromRedis ::
  "bool \<Rightarrow> bool \<Rightarrow> bool \<Rightarrow> Storage \<Rightarrow> Redis \<Rightarrow> Error option \<times> Storage \<times> Redis" where
  "loadFromRedis hgetall_up get_up set_up s rd =
     (case redis_HGetAll hgetall_up rd of
        Inl err \<Rightarrow> (Some FailedToLoadClicks, s, rd)
      | Inr clicksData \<Rightarrow>
          (let s1 = s\<lparr>countryClicks := load_clicks clicksData (countryClicks s)\<rparr>
           in case redis_Get get_up rd of
                Inr startTimeStr \<Rightarrow>
                  (case ParseInt startTimeStr of
                     Inr startTimeUnix \<Rightarrow> (None, s1\<lparr>startTime := time_Unix startTimeUnix\<rparr>, rd)
                   | Inl err \<Rightarrow> (None, s1, rd))
              | Inl RedisNil \<Rightarrow>
                  (None, s1, redis_Set set_up (FormatInt (Unix (startTime s1))) rd)
              | Inl RedisFailure \<Rightarrow> (None, s1, rd)))"

text \<open>\<open>saveToRedis\<close>; \<open>up\<close> says whether the server answers the \<open>HSET\<close>.\<close>

definition saveToRedis :: "bool \<Rightarrow> Storage \<Rightarrow> Redis \<Rightarrow> Error option \<times> Storage \<times> Redis" where
  "saveToRedis up s rd =
     (if \<not> dirty s \<and> countryClicks s = Map.empty then (None, s, rd)
      else if countryClicks s \<noteq> Map.empty then
        (case redis_HSet up (map_option FormatInt \<circ> countryClicks s) rd of
           (Some err, rd') \<Rightarrow> (Some FailedToSaveClicks, s, rd')
         | (None, rd') \<Rightarrow> (None, s\<lparr>dirty := False\<rparr>, rd'))
      else (None, s\<lparr>dirty := False\<rparr>, rd))"

subsection \<open>Leaderboard\<close>

text \<open>
  \<open>float64\<close> is not interpreted: the leaderboard is built over any type \<open>'f\<close> with the
  operations the source applies to it, so that no property below depends on how
  floating-point arithmetic rounds. \<open>f_Seconds\<close> is \<open>Duration.Seconds\<close>.
\<close>

record 'f Float64 =
  f_zero :: 'f
  f_of_int64 :: "int64 \<Rightarrow> 'f"
  f_div :: "'f \<Rightarrow> 'f \<Rightarrow> 'f"
  f_greater :: "'f \<Rightarrow> 'f \<Rightarrow> bool"
  f_Seconds :: "Duration \<Rightarrow> 'f"

record 'f CountryStats =
  Country :: string
  Clicks :: int64
  KPS :: 'f

text \<open>
  \<open>range\<close> over a Go map yields every entry once, in an order that is not specified:
  \<open>kvs\<close> is such an order for the map \<open>m\<close>.
\<close>

definition range_of :: "('k \<rightharpoonup> 'v) \<Rightarrow> ('k \<times> 'v) list \<Rightarrow> bool" where
  "range_of m kvs \<longleftrightarrow> map_of kvs = m \<and> distinct (map fst kvs)"

text \<open>
  \<open>sort.Slice\<close> is not stable and its algorithm is not part of its contract: it is a
  parameter of the leaderboard, and \<open>sorts_by lt srt\<close> is what its documentation
  promises of \<open>srt = sort.Slice(_, lt)\<close>: the same elements, none before one that is
  less than it.
\<close>

definition sorts_by :: "('a \<Rightarrow> 'a \<Rightarrow> bool) \<Rightarrow> ('a list \<Rightarrow> 'a list) \<Rightarrow> bool" where
  "sorts_by lt srt \<longleftrightarrow>
     (\<forall>xs. mset (srt xs) = mset xs \<and> sorted_wrt (\<lambda>a b. \<not> lt b a) (srt xs))"

text \<open>The comparison \<open>getLeaderboard\<close> sorts with: \<open>result[i].Clicks > result[j].Clicks\<close>.\<close>

definition by_clicks_desc :: "'f CountryStats \<Rightarrow> 'f CountryStats \<Rightarrow> bool" where
  "by_clicks_desc a b \<longleftrightarrow> sint (Clicks a) > sint (Clicks b)"

text \<open>The row appended for one entry of the map: no rate (the zero value of the field).\<close>

definition mkrow :: "'f Float64 \<Rightarrow> string \<times> int64 \<Rightarrow> 'f CountryStats" where
  "mkrow F kv = \<lparr>Country = fst kv, Clicks = snd kv, KPS = f_zero F\<rparr>"

text \<open>
  The loop of \<open>getLeaderboard\<close> over the entries of \<open>storage.countryClicks\<close>: the running
  total and the rows appended so far.
\<close>

fun collect ::
  "'f Float64 \<Rightarrow> (string \<times> int64) list \<Rightarrow> int64 \<times> 'f CountryStats list \<Rightarrow> int64 \<times> 'f CountryStats list" where
  "collect F [] (totalClicks, result) = (totalClicks, result)"
| "collect F ((country, clicks) # rest) (totalClicks, result) =
     collect F rest
       (totalClicks + clicks, result @ [\<lparr>Country = country, Clicks = clicks, KPS = f_zero F\<rparr>])"

definition getLeaderboard ::
  "'f Float64 \<Rightarrow> (('f CountryStats \<Rightarrow> 'f CountryStats \<Rightarrow> bool) \<Rightarrow> 'f CountryStats list \<Rightarrow> 'f CountryStats list)
     \<Rightarrow> (string \<times> int64) list \<Rightarrow> Time \<Rightarrow> Storage \<Rightarrow> 'f CountryStats list" where
  "getLeaderboard F sort_Slice kvs now s =
     (case collect F kvs (0, []) of
        (totalClicks, result) \<Rightarrow>
          (let sorted_result = sort_Slice by_clicks_desc result;
               elapsed = f_Seconds F (Since now (startTime s));
               kps = (if f_greater F elapsed (f_zero F)
                      then f_div F (f_of_int64 F totalClicks) elapsed
                      else f_zero F);
               worldwide = \<lparr>Country = ''Worldwide'', Clicks = totalClicks, KPS = kps\<rparr>
           in worldwide # sorted_result))"

text \<open>
  One sorting function that meets the contract, and one interpretation of \<open>float64\<close>
  (exact arithmetic), to run the leaderboard on concrete stores.
\<close>

fun insert_by :: "('a \<Rightarrow> 'a \<Rightarrow> bool) \<Rightarrow> 'a \<Rightarrow> 'a list \<Rightarrow> 'a list" where
  "insert_by lt x [] = [x]"
| "insert_by lt x (y # ys) = (if lt x y then x # y # ys else y # insert_by lt x ys)"

fun insertion_sort :: "('a \<Rightarrow> 'a \<Rightarrow> bool) \<Rightarrow> 'a list \<Rightarrow> 'a list" where
  "insertion_sort lt [] = []"
| "insertion_sort lt (x # xs) = insert_by lt x (insertion_sort lt xs)"

definition exact_Float64 :: "real Float64" where
  "exact_Float64 =
     \<lparr>f_zero = 0, f_of_int64 = (\<lambda>i. real_of_int (sint i)), f_div = (\<lambda>a b. a / b),
      f_greater = (\<lambda>a b. a > b), f_Seconds = (\<lambda>d. real_of_int d / 1000000000)\<rparr>"

subsection \<open>The operations of the service\<close>

text \<open>
  What a click request, a firing of the save timer and a leaderboard request do to the
  storage and to the Redis server. \<open>getLeaderboard\<close> only reads the storage.
\<close>

datatype Operation = ClickRequest Time Request | SaveTick bool | LeaderboardRequest

fun step :: "Operation \<Rightarrow> Storage \<times> Redis \<Rightarrow> Storage \<times> Redis" where
  "step (ClickRequest now r) (s, rd) = (snd (handleClick now r s), rd)"
| "step (SaveTick up) (s, rd) = snd (saveToRedis up s rd)"
| "step LeaderboardRequest (s, rd) = (s, rd)"

section \<open>Properties\<close>

subsection \<open>Helper facts\<close>

lemma Sub_less_iff: "Sub t u < rateLimitTime \<longleftrightarrow> t - u < rateLimitTime"
  by (simp add: Sub_def Let_def rateLimitTime_def Millisecond_def maxDuration_def minDuration_def)

lemma time_Unix_in_range:
  assumes "sint sec \<le> 2 ^ 63 - 1 - 62135596800"
  shows "time_Unix sec = sint sec * Second"
proof -
  have lo: "- (2 ^ 63) \<le> sint sec" using sint_ge [of sec] by simp
  have "sint (sec + unixToInternal) = signed_take_bit 63 (sint sec + 62135596800)"
    by (simp add: sint_word_ariths unixToInternal_def)
  also have "\<dots> = sint sec + 62135596800"
    using assms lo by (intro signed_take_bit_int_eq_self) simp_all
  finally show ?thesis
    by (simp add: time_Unix_def unixToInternal_def)
qed

lemma time_Unix_wraps:
  "time_Unix 9223371974719179008 = (9223371974719179008 - 2 ^ 64) * Second"
  by (simp add: time_Unix_def unixToInternal_def)

lemma Unix_time_Unix: "Unix (time_Unix sec) = sec"
  by (simp add: Unix_def time_Unix_def Second_def)

lemma validate_Clicks:
  "ClickPayload.Clicks (validate p) =
     (if sint (ClickPayload.Clicks p) < 1 then 1
      else if sint (ClickPayload.Clicks p) > 10 then 10 else ClickPayload.Clicks p)"
  by (simp add: validate_def Let_def)

lemma sint_add_small:
  fixes v d :: int64
  assumes "0 \<le> sint v" "sint v \<le> 2 ^ 63 - 11" "1 \<le> sint d" "sint d \<le> 10"
  shows "sint (v + d) = sint v + sint d"
proof -
  have "sint (v + d) = signed_take_bit 63 (sint v + sint d)"
    by (simp add: sint_word_ariths)
  also have "\<dots> = sint v + sint d"
    using assms by (intro signed_take_bit_int_eq_self) simp_all
  finally show ?thesis .
qed

lemma checkRateLimit_keeps:
  "countryClicks (snd (checkRateLimit now ip s)) = countryClicks s"
  "dirty (snd (checkRateLimit now ip s)) = dirty s"
  "startTime (snd (checkRateLimit now ip s)) = startTime s"
  by (simp_all add: checkRateLimit_def split: option.splits)

lemma map_add_twice: "(h ++ f) ++ f = h ++ f"
  by (rule ext) (simp add: map_add_def split: option.splits)

subsection \<open>Formatting and parsing back\<close>

lemma digit_of_digit_char: "d < 10 \<Longrightarrow> digit_of (digit_char d) = Some d"
proof -
  assume "d < 10"
  then have "d \<in> {0, 1, 2, 3, 4, 5, 6, 7, 8, 9}" by auto
  then show ?thesis
    by (auto simp: digit_of_def digit_char_def)
qed

lemma digit_char_not_sign: "d < 10 \<Longrightarrow> digit_char d \<noteq> CHR ''+'' \<and> digit_char d \<noteq> CHR ''-''"
proof -
  assume "d < 10"
  then have "d \<in> {0, 1, 2, 3, 4, 5, 6, 7, 8, 9}" by auto
  then show ?thesis
    by (auto simp: digit_char_def)
qed

lemma ParseUint_loop_snoc:
  "ParseUint_loop n (xs @ [c]) =
     (case ParseUint_loop n xs of Inl e \<Rightarrow> Inl e | Inr m \<Rightarrow> ParseUint_loop m [c])"
  by (induction xs arbitrary: n) (auto simp: Let_def split: option.splits)

lemma ParseUint_loop_digit:
  assumes "m * 10 + d \<le> maxUint64" "d < 10"
  shows "ParseUint_loop m [digit_char d] = Inr (m * 10 + d)"
proof -
  have "m < maxUint64 div 10 + 1"
    using assms by (simp add: maxUint64_def)
  then show ?thesis
    using assms by (simp add: digit_of_digit_char Let_def)
qed

lemma ParseUint_loop_digits:
  "n \<le> maxUint64 \<Longrightarrow> ParseUint_loop 0 (digits n) = Inr n"
proof (induction n rule: digits.induct)
  case (1 n)
  show ?case
  proof (cases "n < 10")
    case True
    then show ?thesis
      using ParseUint_loop_digit [of 0 n] "1.prems" by (simp add: digits.simps [of n])
  next
    case False
    have "n div 10 \<le> maxUint64" using "1.prems" by simp
    with 1 False have ih: "ParseUint_loop 0 (digits (n div 10)) = Inr (n div 10)" by simp
    have "ParseUint_loop (n div 10) [digit_char (n mod 10)] = Inr (n div 10 * 10 + n mod 10)"
      using "1.prems" by (intro ParseUint_loop_digit) simp_all
    then show ?thesis
      using False ih by (simp add: digits.simps [of n] ParseUint_loop_snoc)
  qed
qed

lemma digits_first: "\<exists>c cs. digits n = c # cs \<and> c \<noteq> CHR ''+'' \<and> c \<noteq> CHR ''-''"
proof (induction n rule: digits.induct)
  case (1 n)
  show ?case
  proof (cases "n < 10")
    case True
    then show ?thesis using digit_char_not_sign [of n] by (simp add: digits.simps [of n])
  next
    case False
    with 1 obtain c cs where "digits (n div 10) = c # cs" "c \<noteq> CHR ''+''" "c \<noteq> CHR ''-''"
      by blast
    then show ?thesis using False by (simp add: digits.simps [of n])
  qed
qed

lemma ParseUint_digits: "n \<le> maxUint64 \<Longrightarrow> ParseUint (digits n) = Inr n"
  using digits_first [of n] by (auto simp: ParseUint_def ParseUint_loop_digits)

lemma ParseInt_FormatInt: "ParseInt (FormatInt w) = Inr w"
proof (cases "sint w < 0")
  case True
  define m where "m = nat (- sint w)"
  have lo: "- (2 ^ 63) \<le> sint w" using sint_ge [of w] by simp
  have m: "m \<le> 2 ^ 63" "0 < m" using True lo by (simp_all add: m_def)
  then have "m \<le> maxUint64" by (simp add: maxUint64_def)
  then have pu: "ParseUint (digits m) = Inr m" by (rule ParseUint_digits)
  have "word_of_nat m = (word_of_int (- sint w) :: int64)"
    using True unfolding m_def by (intro of_nat_nat) simp
  then have w: "- (word_of_nat m :: int64) = w" by simp
  show ?thesis
    using True pu m w by (simp add: ParseInt_def FormatInt_def Let_def flip: m_def)
next
  case False
  define m where "m = nat (sint w)"
  have hi: "sint w < 2 ^ 63" using sint_lt [of w] by simp
  have m: "m < 2 ^ 63" using False hi by (simp add: m_def)
  then have "m \<le> maxUint64" by (simp add: maxUint64_def)
  then have pu: "ParseUint (digits m) = Inr m" by (rule ParseUint_digits)
  have w: "(word_of_nat m :: int64) = w"
    using False unfolding m_def by (subst of_nat_nat) simp_all
  obtain c cs where d: "digits m = c # cs" "c \<noteq> CHR ''+''" "c \<noteq> CHR ''-''"
    using digits_first [of m] by blast
  show ?thesis
    using False pu m w d by (simp add: ParseInt_def FormatInt_def Let_def flip: m_def)
qed

subsection \<open>What \<open>ParseInt\<close> accepts\<close>

lemma decimal_value_ge: "n \<le> decimal_value n ds"
proof (induction ds arbitrary: n)
  case Nil
  then show ?case by (simp add: decimal_value_def)
next
  case (Cons c ds)
  have "n \<le> n * 10 + the (digit_of c)" by simp
  also have "\<dots> \<le> decimal_value (n * 10 + the (digit_of c)) ds" by (rule Cons.IH)
  finally show ?case by (simp add: decimal_value_def)
qed

lemma ParseUint_loop_Inr_iff:
  "ParseUint_loop n ds = Inr m \<longleftrightarrow>
     list_all (\<lambda>c. digit_of c \<noteq> None) ds \<and> decimal_value n ds = m \<and> (ds = [] \<or> m \<le> maxUint64)"
proof (induction ds arbitrary: n)
  case Nil
  then show ?case by (auto simp: decimal_value_def)
next
  case (Cons c ds)
  show ?case
  proof (cases "digit_of c")
    case None
    then show ?thesis by simp
  next
    case (Some d)
    have step: "decimal_value n (c # ds) = decimal_value (n * 10 + d) ds"
      by (simp add: decimal_value_def Some)
    have ge: "n * 10 + d \<le> decimal_value (n * 10 + d) ds"
      by (rule decimal_value_ge)
    show ?thesis
    proof (cases "n \<ge> maxUint64 div 10 + 1 \<or> n * 10 + d > maxUint64")
      case True
      then have "n * 10 + d > maxUint64" by (auto simp: maxUint64_def)
      with ge have "decimal_value (n * 10 + d) ds > maxUint64" by simp
      with True show ?thesis by (auto simp: Some step Let_def)
    next
      case False
      then have small: "n * 10 + d \<le> maxUint64" by simp
      have "ds = [] \<Longrightarrow> decimal_value (n * 10 + d) ds \<le> maxUint64"
        using small by (simp add: decimal_value_def)
      with False show ?thesis
        using Cons.IH [of "n * 10 + d"] by (auto simp: Some step Let_def)
    qed
  qed
qed

lemma ParseUint_Inr_iff:
  "ParseUint ds = Inr m \<longleftrightarrow> is_decimal ds \<and> decimal_value 0 ds = m \<and> m \<le> maxUint64"
  by (auto simp: ParseUint_def ParseUint_loop_Inr_iff is_decimal_def)

lemma sign_not_digit: "digit_of CHR ''+'' = None" "digit_of CHR ''-'' = None"
  by (simp_all add: digit_of_def)

lemma ParseInt_Inr_iff:
  "ParseInt s = Inr w \<longleftrightarrow>
     (\<exists>i. int_of_string s = Some i \<and> - (2 ^ 63) \<le> i \<and> i < 2 ^ 63 \<and> w = word_of_int i)"
proof (cases s)
  case Nil
  then show ?thesis by (simp add: ParseInt_def int_of_string_def)
next
  case (Cons c cs)
  consider (minus) "c = CHR ''-''" | (plus) "c = CHR ''+''" | (digit) "c \<noteq> CHR ''-''" "c \<noteq> CHR ''+''"
    by blast
  then show ?thesis
  proof cases
    case minus
    show ?thesis
    proof (cases "ParseUint cs")
      case (Inl e)
      then have "\<not> (is_decimal cs \<and> decimal_value 0 cs \<le> maxUint64)"
        using ParseUint_Inr_iff [of cs] by auto
      then show ?thesis
        using Inl minus Cons
        by (auto simp: ParseInt_def int_of_string_def maxUint64_def)
    next
      case (Inr un)
      then have u: "is_decimal cs" "decimal_value 0 cs = un" "un \<le> maxUint64"
        using ParseUint_Inr_iff [of cs un] by auto
      have "- (word_of_nat un :: int64) = word_of_int (- int un)"
        by simp
      then show ?thesis
        using Inr minus Cons u
        by (auto simp: ParseInt_def int_of_string_def)
    qed
  next
    case plus
    show ?thesis
    proof (cases "ParseUint cs")
      case (Inl e)
      then have "\<not> (is_decimal cs \<and> decimal_value 0 cs \<le> maxUint64)"
        using ParseUint_Inr_iff [of cs] by auto
      then show ?thesis
        using Inl plus Cons
        by (auto simp: ParseInt_def int_of_string_def maxUint64_def)
    next
      case (Inr un)
      then have u: "is_decimal cs" "decimal_value 0 cs = un" "un \<le> maxUint64"
        using ParseUint_Inr_iff [of cs un] by auto
      show ?thesis
        using Inr plus Cons u
        by (auto simp: ParseInt_def int_of_string_def)
    qed
  next
    case digit
    show ?thesis
    proof (cases "ParseUint s")
      case (Inl e)
      then have "\<not> (is_decimal s \<and> decimal_value 0 s \<le> maxUint64)"
        using ParseUint_Inr_iff [of s] by auto
      then show ?thesis
        using Inl digit Cons
        by (auto simp: ParseInt_def int_of_string_def maxUint64_def)
    next
      case (Inr un)
      then have u: "is_decimal s" "decimal_value 0 s = un" "un \<le> maxUint64"
        using ParseUint_Inr_iff [of s un] by auto
      show ?thesis
        using Inr digit Cons u
        by (auto simp: ParseInt_def int_of_string_def)
    qed
  qed
qed

subsection \<open>The loading loop\<close>

lemma load_loop_eq:
  "distinct (map fst kvs) \<Longrightarrow> load_loop kvs m = load_clicks (map_of kvs) m"
proof (induction kvs arbitrary: m)
  case Nil
  then show ?case by (simp add: load_clicks_def)
next
  case (Cons kv kvs)
  obtain c v where kv: "kv = (c, v)" by (cases kv)
  from Cons.prems kv have fresh: "map_of kvs c = None" and d: "distinct (map fst kvs)"
    by (auto simp: map_of_eq_None_iff)
  show ?case
  proof (cases "ParseInt v")
    case (Inl e)
    then show ?thesis
      using Cons.IH [OF d] kv fresh
      by (auto simp: load_clicks_def fun_eq_iff split: option.splits sum.splits)
  next
    case (Inr n)
    then show ?thesis
      using Cons.IH [OF d] kv fresh
      by (auto simp: load_clicks_def fun_eq_iff split: option.splits sum.splits)
  qed
qed

lemma load_clicks_saved:
  assumes "\<forall>c v n. h c = Some v \<longrightarrow> ParseInt v = Inr n \<longrightarrow> c \<in> dom m"
  shows "load_clicks (h ++ (map_option FormatInt \<circ> m)) Map.empty = m"
proof
  fix c
  show "load_clicks (h ++ (map_option FormatInt \<circ> m)) Map.empty c = m c"
  proof (cases "m c")
    case (Some n)
    then show ?thesis
      by (simp add: load_clicks_def map_add_def ParseInt_FormatInt)
  next
    case None
    then have "\<forall>v n. h c = Some v \<longrightarrow> ParseInt v \<noteq> Inr n"
      using assms by (metis domIff)
    with None show ?thesis
      by (auto simp: load_clicks_def map_add_def split: option.splits sum.splits)
  qed
qed

lemma load_clicks_unsaved:
  assumes "\<forall>c v n. h c = Some v \<longrightarrow> ParseInt v = Inr n \<longrightarrow> c \<in> dom m" "m = Map.empty"
  shows "load_clicks h Map.empty = m"
  using assms by (auto simp: load_clicks_def fun_eq_iff split: option.splits sum.splits)

subsection \<open>Leaderboard rows\<close>

lemma collect_eq:
  "collect F kvs (t, res) = (t + sum_list (map snd kvs), res @ map (mkrow F) kvs)"
  by (induction kvs arbitrary: t res) (auto simp: mkrow_def add.assoc)

lemma mset_insert_by: "mset (insert_by lt x ys) = add_mset x (mset ys)"
  by (induction ys) auto

lemma mset_insertion_sort: "mset (insertion_sort lt xs) = mset xs"
  by (induction xs) (auto simp: mset_insert_by)

lemma set_insert_by: "set (insert_by lt x ys) = insert x (set ys)"
  by (induction ys) auto

lemma sorted_insert_by:
  fixes key :: "'a \<Rightarrow> int"
  assumes lt: "\<And>a b. lt a b \<longleftrightarrow> key b < key a"
  shows "sorted_wrt (\<lambda>a b. \<not> lt b a) ys \<Longrightarrow> sorted_wrt (\<lambda>a b. \<not> lt b a) (insert_by lt x ys)"
  by (induction ys) (auto simp: lt set_insert_by)

lemma sorted_insertion_sort:
  fixes key :: "'a \<Rightarrow> int"
  assumes lt: "\<And>a b. lt a b \<longleftrightarrow> key b < key a"
  shows "sorted_wrt (\<lambda>a b. \<not> lt b a) (insertion_sort lt xs)"
  by (induction xs) (auto intro: sorted_insert_by [OF lt])

lemma insertion_sort_sorts: "sorts_by by_clicks_desc (insertion_sort by_clicks_desc)"
proof -
  have "sorted_wrt (\<lambda>a b. \<not> by_clicks_desc b a) (insertion_sort by_clicks_desc xs)"
    for xs :: "'a CountryStats list"
    by (rule sorted_insertion_sort [where key = "\<lambda>r. sint (Clicks r)"])
      (simp add: by_clicks_desc_def)
  then show ?thesis
    by (simp add: sorts_by_def mset_insertion_sort)
qed

lemma range_of_sum:
  assumes "range_of m kvs"
  shows "sum_list (map snd kvs) = (\<Sum>c\<in>dom m. the (m c))"
proof -
  from assms have d: "distinct (map fst kvs)" and m: "m = map_of kvs"
    by (auto simp: range_of_def)
  have eq: "map snd kvs = map (\<lambda>c. the (m c)) (map fst kvs)"
    using d by (auto simp: m)
  have "sum_list (map snd kvs) = sum_list (map (\<lambda>c. the (m c)) (map fst kvs))"
    by (simp only: eq)
  also have "\<dots> = (\<Sum>c\<in>set (map fst kvs). the (m c))"
    using d by (rule sum_list_distinct_conv_sum_set)
  also have "set (map fst kvs) = dom m"
    by (simp add: m dom_map_of_conv_image_fst)
  finally show ?thesis .
qed

lemma filter_key:
  "distinct (map fst kvs) \<Longrightarrow> map_of kvs C = Some v \<Longrightarrow> filter (\<lambda>kv. fst kv = C) kvs = [(C, v)]"
proof (induction kvs)
  case Nil
  then show ?case by simp
next
  case (Cons kv kvs)
  show ?case
  proof (cases "fst kv = C")
    case True
    with Cons.prems have "kv = (C, v)" by (cases kv) auto
    moreover from Cons.prems True have "filter (\<lambda>kv. fst kv = C) kvs = []"
      by (auto simp: filter_empty_conv image_iff)
    ultimately show ?thesis by simp
  next
    case False
    with Cons show ?thesis by auto
  qed
qed

lemma increments_count:
  "countryClicks (increments incs s) C =
     (if C \<in> dom (countryClicks s) \<or> C \<in> fst ` set incs
      then Some (lookup0 (countryClicks s) C + sum_list (map snd (filter (\<lambda>kv. fst kv = C) incs)))
      else None)"
proof (induction incs arbitrary: s)
  case Nil
  then show ?case by (auto simp: increments_def lookup0_def)
next
  case (Cons kv incs)
  obtain c d where kv: "kv = (c, d)" by (cases kv)
  have step: "increments (kv # incs) s = increments incs (incrementClicks c d s)"
    by (simp add: increments_def kv)
  show ?case
    unfolding step Cons.IH
    by (auto simp: kv incrementClicks_def lookup0_def add.assoc split: option.splits)
qed

lemma sint_add_nonneg:
  fixes a b :: int64
  assumes "0 \<le> sint a" "0 \<le> sint b" "sint a + sint b < 2 ^ 63"
  shows "sint (a + b) = sint a + sint b"
proof -
  have "sint (a + b) = signed_take_bit 63 (sint a + sint b)"
    by (simp add: sint_word_ariths)
  also have "\<dots> = sint a + sint b"
    using assms by (intro signed_take_bit_int_eq_self) simp_all
  finally show ?thesis .
qed

lemma sint_sum_list:
  fixes x :: int64
  assumes "0 \<le> sint x" "\<forall>d\<in>set ds. 0 \<le> sint d" "sint x + (\<Sum>d\<leftarrow>ds. sint d) < 2 ^ 63"
  shows "sint (x + sum_list ds) = sint x + (\<Sum>d\<leftarrow>ds. sint d)"
  using assms
proof (induction ds arbitrary: x)
  case Nil
  then show ?case by simp
next
  case (Cons d ds)
  have rest: "0 \<le> (\<Sum>d\<leftarrow>ds. sint d)"
    using Cons.prems(2) by (intro sum_list_nonneg) auto
  have xd: "sint (x + d) = sint x + sint d"
    using Cons.prems rest by (intro sint_add_nonneg) auto
  have "sint (x + d + sum_list ds) = sint (x + d) + (\<Sum>d\<leftarrow>ds. sint d)"
    using Cons.prems xd by (intro Cons.IH) auto
  then show ?case
    by (simp add: xd add.assoc)
qed

lemma range_of_sum_gen:
  fixes g :: "'v \<Rightarrow> 'b::comm_monoid_add"
  assumes "range_of m kvs"
  shows "(\<Sum>kv\<leftarrow>kvs. g (snd kv)) = (\<Sum>c\<in>dom m. g (the (m c)))"
proof -
  from assms have d: "distinct (map fst kvs)" and m: "m = map_of kvs"
    by (auto simp: range_of_def)
  have eq: "map (\<lambda>kv. g (snd kv)) kvs = map (\<lambda>c. g (the (m c))) (map fst kvs)"
    using d by (auto simp: m)
  have "(\<Sum>kv\<leftarrow>kvs. g (snd kv)) = sum_list (map (\<lambda>c. g (the (m c))) (map fst kvs))"
    by (simp only: eq)
  also have "\<dots> = (\<Sum>c\<in>set (map fst kvs). g (the (m c)))"
    using d by (rule sum_list_distinct_conv_sum_set)
  also have "set (map fst kvs) = dom m"
    by (simp add: m dom_map_of_conv_image_fst)
  finally show ?thesis .
qed

lemma sint_total:
  assumes rng: "range_of m kvs"
    and nonneg: "\<forall>c\<in>dom m. 0 \<le> sint (the (m c))"
    and bound: "(\<Sum>c\<in>dom m. sint (the (m c))) < 2 ^ 63"
  shows "sint (sum_list (map snd kvs) :: int64) = (\<Sum>c\<in>dom m. sint (the (m c)))"
proof -
  from rng have d: "distinct (map fst kvs)" and m: "m = map_of kvs"
    by (auto simp: range_of_def)
  have int_sum: "sum_list (map (sint \<circ> snd) kvs) = (\<Sum>c\<in>dom m. sint (the (m c)))"
    using range_of_sum_gen [OF rng, of sint] by (simp add: comp_def)
  have "\<forall>v\<in>set (map snd kvs). 0 \<le> sint v"
  proof
    fix v assume "v \<in> set (map snd kvs)"
    then obtain c where "(c, v) \<in> set kvs" by auto
    with d have "m c = Some v" by (simp add: m)
    with nonneg show "0 \<le> sint v" by force
  qed
  then have "sint (0 + sum_list (map snd kvs)) = sint (0 :: int64) + (\<Sum>v\<leftarrow>map snd kvs. sint v)"
    using bound by (intro sint_sum_list) (simp_all add: int_sum)
  then show ?thesis by (simp add: int_sum)
qed

lemma getLeaderboard_eq:
  "getLeaderboard F sort_Slice kvs now s =
     \<lparr>Country = ''Worldwide'', Clicks = sum_list (map snd kvs),
      KPS = (if f_greater F (f_Seconds F (Since now (startTime s))) (f_zero F)
             then f_div F (f_of_int64 F (sum_list (map snd kvs))) (f_Seconds F (Since now (startTime s)))
             else f_zero F)\<rparr>
     # sort_Slice by_clicks_desc (map (mkrow F) kvs)"
  by (simp add: getLeaderboard_def collect_eq Let_def)

lemma sorted_rows:
  fixes F :: "'f Float64"
  assumes rng: "range_of m kvs"
    and srt: "sorts_by by_clicks_desc srt"
  defines "rows \<equiv> srt (map (mkrow F) kvs)"
  shows "mset rows = mset (map (mkrow F) kvs)"
    and "distinct (map Country rows)"
    and "set (map Country rows) = dom m"
    and "\<forall>r\<in>set rows. m (Country r) = Some (Clicks r) \<and> KPS r = f_zero F"
    and "sorted_wrt (\<lambda>a b. sint (Clicks b) \<le> sint (Clicks a)) rows"
proof -
  from rng have d: "distinct (map fst kvs)" and m: "m = map_of kvs"
    by (auto simp: range_of_def)
  show ms: "mset rows = mset (map (mkrow F) kvs)"
    using srt by (simp add: sorts_by_def rows_def)
  have "mset (map Country rows) = image_mset Country (mset (map (mkrow F) kvs))"
    by (simp add: ms)
  also have "\<dots> = mset (map fst kvs)"
    by (simp add: mkrow_def image_mset.compositionality comp_def)
  finally have keys: "mset (map Country rows) = mset (map fst kvs)" .
  from keys d show "distinct (map Country rows)"
    by (metis mset_eq_imp_distinct_iff)
  from keys have "set (map Country rows) = set (map fst kvs)"
    by (rule mset_eq_setD)
  then show "set (map Country rows) = dom m"
    by (simp add: m dom_map_of_conv_image_fst)
  from ms have "set rows = set (map (mkrow F) kvs)"
    by (rule mset_eq_setD)
  then show "\<forall>r\<in>set rows. m (Country r) = Some (Clicks r) \<and> KPS r = f_zero F"
    using d by (auto simp: m mkrow_def)
  have "sorted_wrt (\<lambda>a b. \<not> by_clicks_desc b a) rows"
    using srt by (simp add: sorts_by_def rows_def)
  then show "sorted_wrt (\<lambda>a b. sint (Clicks b) \<le> sint (Clicks a)) rows"
    by (simp add: by_clicks_desc_def not_less)
qed

subsection \<open>Clamping (C5)\<close>

text \<open>
  C5. A click request that passes the rate-limit gate and whose body parses is answered
  with 200, and the count of its country grows by the request's \<open>clicks\<close> clamped to
  the range from 1 to 10: more than 10 is recorded as exactly 10, less than 1 as exactly 1.
\<close>

theorem handleClick_clamps:
  assumes gate: "fst (checkRateLimit now (clientIP r) s)"
    and parsed: "body r = Some payload"
  shows "\<exists>delta s'. handleClick now r s = (StatusOK, s')
     \<and> countryClicks s' = (countryClicks s)(ClickPayload.Country (validate payload) \<mapsto>
           lookup0 (countryClicks s) (ClickPayload.Country (validate payload)) + delta)
     \<and> delta = (if sint (ClickPayload.Clicks payload) < 1 then 1
                 else if sint (ClickPayload.Clicks payload) > 10 then 10
                 else ClickPayload.Clicks payload)
     \<and> 1 \<le> sint delta \<and> sint delta \<le> 10
     \<and> (sint (ClickPayload.Clicks payload) > 10 \<longrightarrow> delta = 10)
     \<and> (sint (ClickPayload.Clicks payload) < 1 \<longrightarrow> delta = 1)"
  using assms
  by (auto simp: handleClick_def checkRateLimit_def incrementClicks_def validate_Clicks Let_def
      split: option.splits if_splits prod.splits)

text \<open>
  C5, at a request for 15 clicks for Japan on the empty store: the count of Japan is 10.
\<close>

theorem handleClick_clamps_witness:
  "fst (checkRateLimit 0 (clientIP \<lparr>clientIP = ''10.0.0.1'',
          body = Some \<lparr>ClickPayload.Country = ''Japan'', Clicks = 15\<rparr>\<rparr>) (new_storage 0))
   \<and> body \<lparr>clientIP = ''10.0.0.1'', body = Some \<lparr>ClickPayload.Country = ''Japan'', Clicks = 15\<rparr>\<rparr>
       = Some \<lparr>ClickPayload.Country = ''Japan'', Clicks = 15\<rparr>
   \<and> (\<exists>s'. handleClick 0 \<lparr>clientIP = ''10.0.0.1'',
          body = Some \<lparr>ClickPayload.Country = ''Japan'', Clicks = 15\<rparr>\<rparr> (new_storage 0) = (StatusOK, s')
        \<and> countryClicks s' ''Japan'' = Some 10)"
proof -
  let ?p = "\<lparr>ClickPayload.Country = ''Japan'', Clicks = 15\<rparr>"
  let ?r = "\<lparr>clientIP = ''10.0.0.1'', body = Some ?p\<rparr>"
  have gate: "fst (checkRateLimit 0 (clientIP ?r) (new_storage 0))"
    by (simp add: checkRateLimit_def new_storage_def)
  have parsed: "body ?r = Some ?p"
    by simp
  have v: "ClickPayload.Country (validate ?p) = ''Japan''"
    by (simp add: validate_def)
  from handleClick_clamps [OF gate parsed] obtain delta s' where
    h: "handleClick 0 ?r (new_storage 0) = (StatusOK, s')"
    and c: "countryClicks s' = (countryClicks (new_storage 0))(ClickPayload.Country (validate ?p) \<mapsto>
           lookup0 (countryClicks (new_storage 0)) (ClickPayload.Country (validate ?p)) + delta)"
    and d: "sint (ClickPayload.Clicks ?p) > 10 \<longrightarrow> delta = 10"
    by blast
  from d have "delta = 10" by simp
  with c v have "countryClicks s' ''Japan'' = Some 10"
    by (simp add: lookup0_def new_storage_def)
  with gate parsed h show ?thesis by blast
qed

subsection \<open>Rate limiter (C6)\<close>

text \<open>
  C6. \<open>checkRateLimit\<close> allows the client and records the current time as its last
  accepted time exactly when no time is recorded for the client or the time elapsed since
  the recorded one is at least \<open>rateLimitTime\<close>; otherwise it rejects and leaves the
  storage as it is. So a client accepted at time \<open>now\<close> is rejected at every time before
  \<open>now + rateLimitTime\<close> and accepted again at \<open>now + rateLimitTime\<close>.
\<close>

theorem checkRateLimit_allow:
  "checkRateLimit now ip s =
     (if lastClickIP s ip = None \<or> (\<exists>t. lastClickIP s ip = Some t \<and> now - t \<ge> rateLimitTime)
      then (True, s\<lparr>lastClickIP := (lastClickIP s)(ip \<mapsto> now)\<rparr>)
      else (False, s))
   \<and> (\<forall>s' t'. checkRateLimit now ip s = (True, s') \<longrightarrow>
         (t' < now + rateLimitTime \<longrightarrow> checkRateLimit t' ip s' = (False, s'))
         \<and> checkRateLimit (now + rateLimitTime) ip s' =
             (True, s'\<lparr>lastClickIP := (lastClickIP s')(ip \<mapsto> now + rateLimitTime)\<rparr>))"
  by (auto simp: checkRateLimit_def Sub_less_iff split: option.splits if_splits)

text \<open>
  C6, at a window of 100 ms: accepted at time 0, rejected 50 ms later, accepted at 100 ms.
\<close>

theorem checkRateLimit_allow_witness:
  "checkRateLimit 0 ''10.0.0.1'' (new_storage 0) =
      (True, (new_storage 0)\<lparr>lastClickIP := (lastClickIP (new_storage 0))(''10.0.0.1'' \<mapsto> 0)\<rparr>)
   \<and> (50000000::int) < 0 + rateLimitTime
   \<and> checkRateLimit 50000000 ''10.0.0.1''
        ((new_storage 0)\<lparr>lastClickIP := (lastClickIP (new_storage 0))(''10.0.0.1'' \<mapsto> 0)\<rparr>) =
      (False, (new_storage 0)\<lparr>lastClickIP := (lastClickIP (new_storage 0))(''10.0.0.1'' \<mapsto> 0)\<rparr>)
   \<and> fst (checkRateLimit (0 + rateLimitTime) ''10.0.0.1''
        ((new_storage 0)\<lparr>lastClickIP := (lastClickIP (new_storage 0))(''10.0.0.1'' \<mapsto> 0)\<rparr>))"
proof -
  let ?s' = "(new_storage 0)\<lparr>lastClickIP := (lastClickIP (new_storage 0))(''10.0.0.1'' \<mapsto> 0)\<rparr>"
  note inst = checkRateLimit_allow [of 0 "''10.0.0.1''" "new_storage 0"]
  have none: "lastClickIP (new_storage 0) ''10.0.0.1'' = None"
    by (simp add: new_storage_def)
  from inst none have acc: "checkRateLimit 0 ''10.0.0.1'' (new_storage 0) = (True, ?s')"
    by simp
  have early: "(50000000::int) < 0 + rateLimitTime"
    by (simp add: rateLimitTime_def Millisecond_def)
  from inst acc early have rej: "checkRateLimit 50000000 ''10.0.0.1'' ?s' = (False, ?s')"
    by blast
  from inst acc have "fst (checkRateLimit (0 + rateLimitTime) ''10.0.0.1'' ?s')"
    by (metis fst_conv)
  with acc early rej show ?thesis by blast
qed

subsection \<open>Unparsable click requests (C2)\<close>

text \<open>
  C2, as stated, fails: the rate-limit gate runs before the body is decoded, so a request
  with an unparsable body that passes the gate is answered with 400 after its time has
  been recorded for the client. On the new storage, at time 5:
\<close>

theorem handleClick_unparsable_counterexample:
  "body \<lparr>clientIP = ''10.0.0.1'', body = None\<rparr> = None
   \<and> fst (handleClick 5 \<lparr>clientIP = ''10.0.0.1'', body = None\<rparr> (new_storage 0)) = StatusBadRequest
   \<and> lastClickIP (new_storage 0) ''10.0.0.1'' = None
   \<and> lastClickIP (snd (handleClick 5 \<lparr>clientIP = ''10.0.0.1'', body = None\<rparr> (new_storage 0)))
        ''10.0.0.1'' = Some 5"
  by (simp add: handleClick_def checkRateLimit_def new_storage_def)

text \<open>
  C2, amended. A click request whose body is unparsable is answered with a client error
  (400 when the rate-limit gate admits it, 429 when the gate rejects it), and the counter
  mapping, the dirty flag and the start time are unchanged. The rate limiter's mapping is
  unchanged when the gate rejects the request; when the gate admits it, the request's time
  is recorded for its client.
\<close>

theorem handleClick_unparsable:
  assumes "body r = None"
  shows "fst (handleClick now r s) =
           (if fst (checkRateLimit now (clientIP r) s) then StatusBadRequest
            else StatusTooManyRequests)
     \<and> countryClicks (snd (handleClick now r s)) = countryClicks s
     \<and> dirty (snd (handleClick now r s)) = dirty s
     \<and> startTime (snd (handleClick now r s)) = startTime s
     \<and> lastClickIP (snd (handleClick now r s)) =
           (if fst (checkRateLimit now (clientIP r) s) then (lastClickIP s)(clientIP r \<mapsto> now)
            else lastClickIP s)"
  using assms
  by (auto simp: handleClick_def checkRateLimit_def split: option.splits prod.splits if_splits)

text \<open>
  C2, amended, at an unparsable request 50 ms after an accepted one of the same client:
  answered with 429, nothing changes.
\<close>

theorem handleClick_unparsable_witness:
  "body \<lparr>clientIP = ''10.0.0.1'', body = None\<rparr> = None
   \<and> fst (handleClick 50000000 \<lparr>clientIP = ''10.0.0.1'', body = None\<rparr>
        ((new_storage 0)\<lparr>lastClickIP := [''10.0.0.1'' \<mapsto> 0]\<rparr>)) = StatusTooManyRequests
   \<and> lastClickIP (snd (handleClick 50000000 \<lparr>clientIP = ''10.0.0.1'', body = None\<rparr>
        ((new_storage 0)\<lparr>lastClickIP := [''10.0.0.1'' \<mapsto> 0]\<rparr>))) = [''10.0.0.1'' \<mapsto> 0]"
proof -
  let ?r = "\<lparr>clientIP = ''10.0.0.1'', body = None :: ClickPayload option\<rparr>"
  let ?s = "(new_storage 0)\<lparr>lastClickIP := [''10.0.0.1'' \<mapsto> 0]\<rparr>"
  have b: "body ?r = None"
    by simp
  have g: "\<not> fst (checkRateLimit 50000000 (clientIP ?r) ?s)"
    by (simp add: checkRateLimit_def Sub_def maxDuration_def minDuration_def
        rateLimitTime_def Millisecond_def)
  from handleClick_unparsable [OF b, of 50000000 ?s] g
  have "fst (handleClick 50000000 ?r ?s) = StatusTooManyRequests"
    and "lastClickIP (snd (handleClick 50000000 ?r ?s)) = lastClickIP ?s"
    by simp_all
  with b show ?thesis by simp
qed

subsection \<open>Saving twice (C3)\<close>

text \<open>
  C3, as stated, fails: \<open>saveToRedis\<close> returns early only when the dirty flag is false
  and the counter mapping is empty. With Brazil at 5, the first save succeeds and clears
  the dirty flag, and the second save sends a second \<open>HSET\<close>.
\<close>

theorem save_twice_counterexample:
  "fst (saveToRedis True (incrementClicks ''Brazil'' 5 (new_storage 0)) empty_redis) = None
   \<and> \<not> dirty (fst (snd (saveToRedis True (incrementClicks ''Brazil'' 5 (new_storage 0)) empty_redis)))
   \<and> hset_issued (snd (snd (saveToRedis True (incrementClicks ''Brazil'' 5 (new_storage 0)) empty_redis))) = 1
   \<and> hset_issued (snd (snd (saveToRedis True
        (fst (snd (saveToRedis True (incrementClicks ''Brazil'' 5 (new_storage 0)) empty_redis)))
        (snd (snd (saveToRedis True (incrementClicks ''Brazil'' 5 (new_storage 0)) empty_redis)))))) = 2"
  by (simp add: saveToRedis_def redis_HSet_def incrementClicks_def new_storage_def empty_redis_def)

text \<open>
  C3, amended. After a successful save the dirty flag is clear. A second save with no
  increment in between sends no \<open>HSET\<close> exactly when the counter mapping is empty, and
  then changes nothing; when the mapping is not empty it sends one more \<open>HSET\<close>, with the
  same fields, and if that succeeds the storage and the hash are as the first save left
  them.
\<close>

theorem save_twice:
  assumes "saveToRedis up1 s rd = (None, s1, rd1)"
    and "saveToRedis up2 s1 rd1 = (e2, s2, rd2)"
  shows "\<not> dirty s1
    \<and> hset_issued rd2 = hset_issued rd1 + (if countryClicks s = Map.empty then 0 else 1)
    \<and> (countryClicks s = Map.empty \<longrightarrow> e2 = None \<and> s2 = s1 \<and> rd2 = rd1)
    \<and> (e2 = None \<longrightarrow> s2 = s1 \<and> clicks_hash rd2 = clicks_hash rd1)"
  using assms
  by (auto simp: saveToRedis_def redis_HSet_def map_add_twice
      split: if_splits prod.splits option.splits)

text \<open>
  C3, amended, at two saves of the new, empty storage (neither sends a command) and at
  two saves of a store with Brazil at 5 (the second sends one more \<open>HSET\<close> and leaves the
  hash as it was).
\<close>

theorem save_twice_witness:
  "saveToRedis True (new_storage 0) empty_redis = (None, new_storage 0, empty_redis)
   \<and> countryClicks (new_storage 0) = Map.empty
   \<and> hset_issued empty_redis = hset_issued empty_redis + 0
   \<and> fst (saveToRedis True (incrementClicks ''Brazil'' 5 (new_storage 0)) empty_redis) = None
   \<and> \<not> dirty (fst (snd (saveToRedis True (incrementClicks ''Brazil'' 5 (new_storage 0)) empty_redis)))
   \<and> hset_issued (snd (snd (saveToRedis True
         (fst (snd (saveToRedis True (incrementClicks ''Brazil'' 5 (new_storage 0)) empty_redis)))
         (snd (snd (saveToRedis True (incrementClicks ''Brazil'' 5 (new_storage 0)) empty_redis))))))
       = hset_issued (snd (snd (saveToRedis True (incrementClicks ''Brazil'' 5 (new_storage 0)) empty_redis))) + 1
   \<and> clicks_hash (snd (snd (saveToRedis True
         (fst (snd (saveToRedis True (incrementClicks ''Brazil'' 5 (new_storage 0)) empty_redis)))
         (snd (snd (saveToRedis True (incrementClicks ''Brazil'' 5 (new_storage 0)) empty_redis))))))
       = clicks_hash (snd (snd (saveToRedis True (incrementClicks ''Brazil'' 5 (new_storage 0)) empty_redis)))"
proof -
  let ?s = "incrementClicks ''Brazil'' 5 (new_storage 0)"
  let ?A = "saveToRedis True ?s empty_redis"
  let ?B = "saveToRedis True (fst (snd ?A)) (snd (snd ?A))"
  have e: "countryClicks (new_storage 0) = Map.empty"
    by (simp add: new_storage_def)
  have sv: "saveToRedis True (new_storage 0) empty_redis = (None, new_storage 0, empty_redis)"
    by (simp add: saveToRedis_def new_storage_def)
  from save_twice [OF sv sv] e
  have idle: "hset_issued empty_redis = hset_issued empty_redis + 0"
    by simp
  have ne: "countryClicks ?s \<noteq> Map.empty"
    by (simp add: incrementClicks_def)
  have ok1: "fst ?A = None"
    by (simp add: saveToRedis_def redis_HSet_def incrementClicks_def)
  then have first: "?A = (None, fst (snd ?A), snd (snd ?A))"
    by (metis prod.collapse)
  have ok2: "fst ?B = None"
    by (simp add: saveToRedis_def redis_HSet_def incrementClicks_def)
  then have second: "?B = (None, fst (snd ?B), snd (snd ?B))"
    by (metis prod.collapse)
  from save_twice [OF first second] ne
  have "\<not> dirty (fst (snd ?A))"
    and "hset_issued (snd (snd ?B)) = hset_issued (snd (snd ?A)) + 1"
    and "clicks_hash (snd (snd ?B)) = clicks_hash (snd (snd ?A))"
    by simp_all
  with sv e idle ok1 show ?thesis by blast
qed

subsection \<open>Failed saves (C8)\<close>

text \<open>
  C8, as stated, fails: \<open>saveToRedis\<close> attempts the write whenever the counter mapping
  is not empty, also when the dirty flag is false. After a click and a successful save the
  flag is false; the next save, with Redis not answering, sends its \<open>HSET\<close>, fails, and
  the flag is false afterwards, not true.
\<close>

theorem save_failure_counterexample:
  "fst (saveToRedis True (incrementClicks ''Brazil'' 5 (new_storage 0)) empty_redis) = None
   \<and> countryClicks (fst (snd (saveToRedis True (incrementClicks ''Brazil'' 5 (new_storage 0))
        empty_redis))) ''Brazil'' = Some 5
   \<and> hset_issued (snd (snd (saveToRedis True (incrementClicks ''Brazil'' 5 (new_storage 0))
        empty_redis))) = 1
   \<and> fst (saveToRedis False
        (fst (snd (saveToRedis True (incrementClicks ''Brazil'' 5 (new_storage 0)) empty_redis)))
        (snd (snd (saveToRedis True (incrementClicks ''Brazil'' 5 (new_storage 0)) empty_redis))))
       = Some FailedToSaveClicks
   \<and> hset_issued (snd (snd (saveToRedis False
        (fst (snd (saveToRedis True (incrementClicks ''Brazil'' 5 (new_storage 0)) empty_redis)))
        (snd (snd (saveToRedis True (incrementClicks ''Brazil'' 5 (new_storage 0)) empty_redis))))))
       = 2
   \<and> \<not> dirty (fst (snd (saveToRedis False
        (fst (snd (saveToRedis True (incrementClicks ''Brazil'' 5 (new_storage 0)) empty_redis)))
        (snd (snd (saveToRedis True (incrementClicks ''Brazil'' 5 (new_storage 0)) empty_redis))))))"
  by (simp add: saveToRedis_def redis_HSet_def incrementClicks_def new_storage_def empty_redis_def
      lookup0_def)

text \<open>
  C8, amended. When \<open>saveToRedis\<close> attempts the write (the counter mapping is not
  empty) and Redis does not answer, it returns an error and leaves the dirty flag and the
  counter mapping as they were: a flag that was true stays true, and a save that then
  succeeds writes every count of the mapping. Whenever \<open>saveToRedis\<close> returns an error
  the storage is unchanged, and a dirty flag that it clears was cleared by a save that
  returned no error, after a successful write when there was anything to write.
\<close>

theorem save_failure:
  assumes "saveToRedis up s rd = (res, s', rd')"
  shows "(countryClicks s \<noteq> Map.empty \<and> \<not> up \<longrightarrow>
            res = Some FailedToSaveClicks \<and> dirty s' = dirty s \<and> countryClicks s' = countryClicks s
            \<and> (dirty s \<longrightarrow> dirty s')
            \<and> (\<forall>c v. countryClicks s c = Some v \<longrightarrow>
                  clicks_hash (snd (snd (saveToRedis True s' rd'))) c = Some (FormatInt v)))
     \<and> (res \<noteq> None \<longrightarrow> s' = s)
     \<and> (dirty s \<and> \<not> dirty s' \<longrightarrow> res = None \<and> (countryClicks s \<noteq> Map.empty \<longrightarrow> up))"
  using assms
  by (auto simp: saveToRedis_def redis_HSet_def map_add_Some_iff
      split: if_splits prod.splits option.splits)

text \<open>
  C8, amended, at a store with Brazil at 5, its flag true, and a Redis server that does
  not answer: the save fails, the flag stays true, and the next save, answered, writes \<open>5\<close> for Brazil.
\<close>

theorem save_failure_witness:
  "countryClicks (incrementClicks ''Brazil'' 5 (new_storage 0)) \<noteq> Map.empty
   \<and> dirty (incrementClicks ''Brazil'' 5 (new_storage 0))
   \<and> countryClicks (incrementClicks ''Brazil'' 5 (new_storage 0)) ''Brazil'' = Some 5
   \<and> fst (saveToRedis False (incrementClicks ''Brazil'' 5 (new_storage 0)) empty_redis)
        = Some FailedToSaveClicks
   \<and> dirty (fst (snd (saveToRedis False (incrementClicks ''Brazil'' 5 (new_storage 0)) empty_redis)))
   \<and> clicks_hash (snd (snd (saveToRedis True
        (fst (snd (saveToRedis False (incrementClicks ''Brazil'' 5 (new_storage 0)) empty_redis)))
        (snd (snd (saveToRedis False (incrementClicks ''Brazil'' 5 (new_storage 0)) empty_redis))))))
        ''Brazil'' = Some ''5''"
proof -
  let ?s = "incrementClicks ''Brazil'' 5 (new_storage 0)"
  let ?out = "saveToRedis False ?s empty_redis"
  have ne: "countryClicks ?s \<noteq> Map.empty"
    by (simp add: incrementClicks_def)
  have d: "dirty ?s"
    by (simp add: incrementClicks_def)
  have c: "countryClicks ?s ''Brazil'' = Some 5"
    by (simp add: incrementClicks_def new_storage_def lookup0_def)
  have f: "FormatInt 5 = ''5''"
    by (simp add: FormatInt_def digits.simps digit_char_def)
  have out: "?out = (fst ?out, fst (snd ?out), snd (snd ?out))"
    by simp
  from save_failure [OF out] ne d c f
  have "fst ?out = Some FailedToSaveClicks"
    and "dirty (fst (snd ?out))"
    and "clicks_hash (snd (snd (saveToRedis True (fst (snd ?out)) (snd (snd ?out))))) ''Brazil''
           = Some ''5''"
    by auto
  with ne d c show ?thesis by blast
qed

subsection \<open>Monotone counts (C9)\<close>

text \<open>
  C9, as stated, fails: the counts are \<open>int64\<close> and the addition of \<open>incrementClicks\<close>
  wraps around. A count of \<open>2 ^ 63 - 1\<close>, loaded from the Redis hash, is non-negative, and
  one click turns it into \<open>- (2 ^ 63)\<close>.
\<close>

theorem counts_monotone_counterexample:
  "countryClicks (fst (snd (loadFromRedis True True True (new_storage 0)
       (empty_redis\<lparr>clicks_hash := [''Japan'' \<mapsto> ''9223372036854775807'']\<rparr>)))) ''Japan''
     = Some 9223372036854775807
   \<and> 0 \<le> sint (9223372036854775807 :: int64)
   \<and> countryClicks (fst (step
       (ClickRequest 0 \<lparr>clientIP = ''10.0.0.1'',
          body = Some \<lparr>ClickPayload.Country = ''Japan'', Clicks = 1\<rparr>\<rparr>)
       (fst (snd (loadFromRedis True True True (new_storage 0)
          (empty_redis\<lparr>clicks_hash := [''Japan'' \<mapsto> ''9223372036854775807'']\<rparr>))),
        empty_redis\<lparr>clicks_hash := [''Japan'' \<mapsto> ''9223372036854775807'']\<rparr>))) ''Japan''
     = Some (- 9223372036854775808)
   \<and> sint (- 9223372036854775808 :: int64) < 0"
  by (simp add: loadFromRedis_def redis_HGetAll_def redis_Get_def redis_Set_def load_clicks_def
      new_storage_def empty_redis_def ParseInt_def ParseUint_def digit_of_def maxUint64_def Let_def
      handleClick_def checkRateLimit_def validate_def incrementClicks_def lookup0_def)

text \<open>
  C9, amended. As long as every count in the store is non-negative and at most
  \<open>2 ^ 63 - 11\<close> (so that adding a clamped delta does not overflow \<open>int64\<close>), no
  operation of the service (click request, save, leaderboard request) decreases or
  removes a country's count, and every count stays non-negative.
\<close>

theorem counts_monotone:
  assumes nonneg: "\<forall>c v. countryClicks s c = Some v \<longrightarrow> 0 \<le> sint v"
    and room: "\<forall>c v. countryClicks s c = Some v \<longrightarrow> sint v \<le> 2 ^ 63 - 11"
    and st: "step op (s, rd) = (s', rd')"
  shows "(\<forall>c v. countryClicks s c = Some v \<longrightarrow>
            (\<exists>v'. countryClicks s' c = Some v' \<and> sint v \<le> sint v'))
       \<and> (\<forall>c v'. countryClicks s' c = Some v' \<longrightarrow> 0 \<le> sint v')"
proof (cases op)
  case (ClickRequest now r)
  show ?thesis
  proof (cases "fst (checkRateLimit now (clientIP r) s) \<and> body r \<noteq> None")
    case False
    then have "countryClicks s' = countryClicks s"
      using st ClickRequest checkRateLimit_keeps(1)[of now "clientIP r" s]
      by (auto simp: handleClick_def split: prod.splits option.splits bool.splits)
    then show ?thesis using nonneg by auto
  next
    case True
    then obtain payload where p: "body r = Some payload" by auto
    define c0 where "c0 = ClickPayload.Country (validate payload)"
    define d where "d = ClickPayload.Clicks (validate payload)"
    have d: "1 \<le> sint d" "sint d \<le> 10"
      by (simp_all add: d_def validate_Clicks)
    have s': "countryClicks s' = (countryClicks s)(c0 \<mapsto> lookup0 (countryClicks s) c0 + d)"
      using st ClickRequest True p checkRateLimit_keeps(1)[of now "clientIP r" s]
      by (auto simp: handleClick_def incrementClicks_def c0_def d_def Let_def
          split: prod.splits option.splits bool.splits)
    have new: "0 \<le> sint (lookup0 (countryClicks s) c0 + d)
        \<and> sint (lookup0 (countryClicks s) c0) \<le> sint (lookup0 (countryClicks s) c0 + d)"
    proof (cases "countryClicks s c0")
      case None
      then show ?thesis using d by (simp add: lookup0_def)
    next
      case (Some v)
      then have "sint (v + d) = sint v + sint d"
        using nonneg room d by (intro sint_add_small) auto
      then show ?thesis using Some nonneg d by (auto simp: lookup0_def)
    qed
    show ?thesis
      using s' new nonneg by (auto simp: lookup0_def)
  qed
next
  case (SaveTick up)
  then have "countryClicks s' = countryClicks s"
    using st
    by (auto simp: saveToRedis_def redis_HSet_def split: if_splits prod.splits option.splits)
  then show ?thesis using nonneg by auto
next
  case LeaderboardRequest
  then show ?thesis using st nonneg by auto
qed

text \<open>
  C9, amended, at a click for Japan, at 3 before: Japan is still in the store, at 3 or more.
\<close>

theorem counts_monotone_witness:
  "countryClicks (incrementClicks ''Japan'' 3 (new_storage 0)) ''Japan'' = Some 3
   \<and> (\<exists>v'. countryClicks (fst (step
         (ClickRequest 0 \<lparr>clientIP = ''10.0.0.1'',
            body = Some \<lparr>ClickPayload.Country = ''Japan'', Clicks = 15\<rparr>\<rparr>)
         (incrementClicks ''Japan'' 3 (new_storage 0), empty_redis))) ''Japan'' = Some v'
       \<and> sint (3 :: int64) \<le> sint v')"
proof -
  let ?s = "incrementClicks ''Japan'' 3 (new_storage 0)"
  let ?op = "ClickRequest 0 \<lparr>clientIP = ''10.0.0.1'',
            body = Some \<lparr>ClickPayload.Country = ''Japan'', Clicks = 15\<rparr>\<rparr>"
  have nonneg: "\<forall>c v. countryClicks ?s c = Some v \<longrightarrow> 0 \<le> sint v"
    by (auto simp: incrementClicks_def new_storage_def lookup0_def split: if_splits)
  have room: "\<forall>c v. countryClicks ?s c = Some v \<longrightarrow> sint v \<le> 2 ^ 63 - 11"
    by (auto simp: incrementClicks_def new_storage_def lookup0_def split: if_splits)
  have c: "countryClicks ?s ''Japan'' = Some 3"
    by (simp add: incrementClicks_def new_storage_def lookup0_def)
  have st: "step ?op (?s, empty_redis) = (fst (step ?op (?s, empty_redis)), snd (step ?op (?s, empty_redis)))"
    by simp
  from counts_monotone [OF nonneg room st] c
  have "\<exists>v'. countryClicks (fst (step ?op (?s, empty_redis))) ''Japan'' = Some v'
       \<and> sint (3 :: int64) \<le> sint v'"
    by blast
  with c show ?thesis by blast
qed

subsection \<open>Loading (C10)\<close>

text \<open>
  C10. When Redis answers the \<open>HGETALL\<close>, \<open>loadFromRedis\<close> on a store with no counts
  returns no error and leaves in the store exactly the fields of the hash whose value
  \<open>ParseInt\<close> accepts, each with the parsed number; a field whose value does not parse is
  absent from the store. The values that parse are the decimal numerals, with an optional
  sign, of the integers from \<open>- (2 ^ 63)\<close> to \<open>2 ^ 63 - 1\<close>. This is the result of the
  loop of the source, in whatever order \<open>range\<close> yields the entries.
\<close>

theorem load_skips_unparsable:
  assumes empty: "countryClicks s = Map.empty"
    and ld: "loadFromRedis True get_up set_up s rd = (res, s', rd')"
  shows "res = None
     \<and> (\<forall>country. countryClicks s' country =
           (case clicks_hash rd country of
              None \<Rightarrow> None
            | Some v \<Rightarrow> (case ParseInt v of Inr n \<Rightarrow> Some n | Inl e \<Rightarrow> None)))
     \<and> dom (countryClicks s') = {c. \<exists>v n. clicks_hash rd c = Some v \<and> ParseInt v = Inr n}
     \<and> (\<forall>c n. countryClicks s' c = Some n \<longleftrightarrow>
           (\<exists>v i. clicks_hash rd c = Some v \<and> int_of_string v = Some i
              \<and> - (2 ^ 63) \<le> i \<and> i < 2 ^ 63 \<and> n = word_of_int i))
     \<and> (\<forall>kvs. range_of (clicks_hash rd) kvs \<longrightarrow> countryClicks s' = load_loop kvs Map.empty)"
proof -
  have cc: "countryClicks s' = load_clicks (clicks_hash rd) Map.empty"
    using ld empty
    by (auto simp: loadFromRedis_def redis_HGetAll_def redis_Get_def redis_Set_def Let_def
        split: if_splits option.splits sum.splits RedisError.splits)
  have res: "res = None"
    using ld
    by (auto simp: loadFromRedis_def redis_HGetAll_def redis_Get_def redis_Set_def Let_def
        split: if_splits option.splits sum.splits RedisError.splits)
  have pt: "\<forall>country. countryClicks s' country =
           (case clicks_hash rd country of
              None \<Rightarrow> None
            | Some v \<Rightarrow> (case ParseInt v of Inr n \<Rightarrow> Some n | Inl e \<Rightarrow> None))"
    by (simp add: cc load_clicks_def)
  have dm: "dom (countryClicks s') = {c. \<exists>v n. clicks_hash rd c = Some v \<and> ParseInt v = Inr n}"
    unfolding dom_def
  proof (rule Collect_cong)
    fix c
    show "(countryClicks s' c \<noteq> None) = (\<exists>v n. clicks_hash rd c = Some v \<and> ParseInt v = Inr n)"
    proof (cases "clicks_hash rd c")
      case None
      then show ?thesis by (simp add: pt)
    next
      case (Some v)
      then show ?thesis by (cases "ParseInt v") (simp_all add: pt)
    qed
  qed
  have sp: "\<forall>c n. countryClicks s' c = Some n \<longleftrightarrow>
           (\<exists>v i. clicks_hash rd c = Some v \<and> int_of_string v = Some i
              \<and> - (2 ^ 63) \<le> i \<and> i < 2 ^ 63 \<and> n = word_of_int i)"
  proof (intro allI)
    fix c n
    show "countryClicks s' c = Some n \<longleftrightarrow>
           (\<exists>v i. clicks_hash rd c = Some v \<and> int_of_string v = Some i
              \<and> - (2 ^ 63) \<le> i \<and> i < 2 ^ 63 \<and> n = word_of_int i)"
    proof (cases "clicks_hash rd c")
      case None
      then show ?thesis by (simp add: pt)
    next
      case (Some v)
      have "countryClicks s' c = Some n \<longleftrightarrow> ParseInt v = Inr n"
        using Some by (cases "ParseInt v") (simp_all add: pt)
      then show ?thesis
        using Some ParseInt_Inr_iff [of v n] by simp
    qed
  qed
  have lp: "\<forall>kvs. range_of (clicks_hash rd) kvs \<longrightarrow> countryClicks s' = load_loop kvs Map.empty"
    by (auto simp: cc range_of_def load_loop_eq)
  from res pt dm sp lp show ?thesis by blast
qed

text \<open>
  C10, at the hash with \<open>3\<close> for Japan and \<open>x\<close> for Peru: Japan is loaded, Peru is not.
\<close>

theorem load_skips_unparsable_witness:
  "countryClicks (new_storage 0) = Map.empty
   \<and> clicks_hash (empty_redis\<lparr>clicks_hash := [''Japan'' \<mapsto> ''3'', ''Peru'' \<mapsto> ''x'']\<rparr>) ''Peru'' = Some ''x''
   \<and> fst (loadFromRedis True True True (new_storage 0)
        (empty_redis\<lparr>clicks_hash := [''Japan'' \<mapsto> ''3'', ''Peru'' \<mapsto> ''x'']\<rparr>)) = None
   \<and> countryClicks (fst (snd (loadFromRedis True True True (new_storage 0)
        (empty_redis\<lparr>clicks_hash := [''Japan'' \<mapsto> ''3'', ''Peru'' \<mapsto> ''x'']\<rparr>)))) ''Japan'' = Some 3
   \<and> countryClicks (fst (snd (loadFromRedis True True True (new_storage 0)
        (empty_redis\<lparr>clicks_hash := [''Japan'' \<mapsto> ''3'', ''Peru'' \<mapsto> ''x'']\<rparr>)))) ''Peru'' = None"
proof -
  let ?rd = "empty_redis\<lparr>clicks_hash := [''Japan'' \<mapsto> ''3'', ''Peru'' \<mapsto> ''x'']\<rparr>"
  let ?L = "loadFromRedis True True True (new_storage 0) ?rd"
  have e: "countryClicks (new_storage 0) = Map.empty"
    by (simp add: new_storage_def)
  have ld: "?L = (fst ?L, fst (snd ?L), snd (snd ?L))"
    by simp
  have p: "clicks_hash ?rd ''Peru'' = Some ''x''" and j: "clicks_hash ?rd ''Japan'' = Some ''3''"
    by simp_all
  have px: "ParseInt ''x'' = Inl ErrSyntax" and p3: "ParseInt ''3'' = Inr 3"
    by (simp_all add: ParseInt_def ParseUint_def digit_of_def maxUint64_def Let_def)
  from load_skips_unparsable [OF e ld]
  have r: "fst ?L = None"
    and a: "\<forall>country. countryClicks (fst (snd ?L)) country =
           (case clicks_hash ?rd country of
              None \<Rightarrow> None
            | Some v \<Rightarrow> (case ParseInt v of Inr n \<Rightarrow> Some n | Inl e \<Rightarrow> None))"
    by blast+
  from a p px have "countryClicks (fst (snd ?L)) ''Peru'' = None"
    by simp
  moreover from a j p3 have "countryClicks (fst (snd ?L)) ''Japan'' = Some 3"
    by simp
  ultimately show ?thesis using e p r by blast
qed

subsection \<open>Save, then load (C4)\<close>

text \<open>
  C4, as stated, fails. \<open>saveToRedis\<close> does not write the epoch: \<open>loadFromRedis\<close>
  writes it, in whole seconds, when it finds none. A process started at 1.5 s on an empty
  Redis keeps 1.5 s as its epoch and stores \<open>1\<close>; after a click and a save, a new process
  loads the epoch 1 s. And \<open>HSET\<close> keeps the fields it is not given: a field for Peru
  that is in the hash and not in the store is loaded after the save.
\<close>

theorem save_load_roundtrip_counterexample:
  "fst (saveToRedis True
      (incrementClicks ''Brazil'' 5
         (fst (snd (loadFromRedis True True True (new_storage 1500000000) empty_redis))))
      (snd (snd (loadFromRedis True True True (new_storage 1500000000) empty_redis)))) = None
   \<and> startTime (incrementClicks ''Brazil'' 5
         (fst (snd (loadFromRedis True True True (new_storage 1500000000) empty_redis)))) = 1500000000
   \<and> startTime (fst (snd (loadFromRedis True True True (new_storage 99000000000)
        (snd (snd (saveToRedis True
           (incrementClicks ''Brazil'' 5
              (fst (snd (loadFromRedis True True True (new_storage 1500000000) empty_redis))))
           (snd (snd (loadFromRedis True True True (new_storage 1500000000) empty_redis))))))))) = 1000000000
   \<and> fst (saveToRedis True (incrementClicks ''Brazil'' 5 (new_storage 0))
        (empty_redis\<lparr>clicks_hash := [''Peru'' \<mapsto> ''2'']\<rparr>)) = None
   \<and> countryClicks (incrementClicks ''Brazil'' 5 (new_storage 0)) ''Peru'' = None
   \<and> countryClicks (fst (snd (loadFromRedis True True True (new_storage 99000000000)
        (snd (snd (saveToRedis True (incrementClicks ''Brazil'' 5 (new_storage 0))
           (empty_redis\<lparr>clicks_hash := [''Peru'' \<mapsto> ''2'']\<rparr>))))))) ''Peru'' = Some 2"
  by (simp add: loadFromRedis_def redis_HGetAll_def redis_Get_def redis_Set_def load_clicks_def
      saveToRedis_def redis_HSet_def incrementClicks_def lookup0_def
      new_storage_def empty_redis_def ParseInt_def ParseUint_def digit_of_def maxUint64_def Let_def
      FormatInt_def digits.simps digit_char_def Unix_def time_Unix_def unixToInternal_def Second_def
      map_add_def)

text \<open>
  C4, amended. After a successful save, a load that Redis answers, into a store with no
  counts, reproduces the counter mapping exactly, provided that every field that was in
  the hash before the save with a value that parses is a country of the store (as it is
  when the store was loaded from that hash). The save leaves the epoch key as it was: the
  load takes the epoch from that key when the \<open>GET\<close> is answered and the value parses,
  and keeps the start time of the new process otherwise; so it reproduces the epoch of the
  saved store when that epoch is the whole number of seconds stored under the key.
\<close>

theorem save_load_roundtrip:
  assumes save: "saveToRedis up s rd = (None, s1, rd1)"
    and seeded: "\<forall>c v n. clicks_hash rd c = Some v \<longrightarrow> ParseInt v = Inr n \<longrightarrow> c \<in> dom (countryClicks s)"
    and fresh: "countryClicks s0 = Map.empty"
    and load: "loadFromRedis True get_up set_up s0 rd1 = (res, s2, rd2)"
  shows "res = None
     \<and> countryClicks s2 = countryClicks s
     \<and> start_time_key rd1 = start_time_key rd
     \<and> startTime s2 =
         (if get_up then
            (case start_time_key rd of
               None \<Rightarrow> startTime s0
             | Some v \<Rightarrow> (case ParseInt v of Inr k \<Rightarrow> time_Unix k | Inl e \<Rightarrow> startTime s0))
          else startTime s0)
     \<and> (\<forall>k. get_up \<and> start_time_key rd = Some (FormatInt k) \<and> startTime s = time_Unix k
            \<longrightarrow> startTime s2 = startTime s)"
proof -
  have h1: "clicks_hash rd1 =
      (if countryClicks s = Map.empty then clicks_hash rd
       else clicks_hash rd ++ (map_option FormatInt \<circ> countryClicks s))"
    and k1: "start_time_key rd1 = start_time_key rd"
    using save
    by (auto simp: saveToRedis_def redis_HSet_def split: if_splits prod.splits option.splits)
  have lc: "load_clicks (clicks_hash rd1) Map.empty = countryClicks s"
  proof (cases "countryClicks s = Map.empty")
    case True
    with h1 have "clicks_hash rd1 = clicks_hash rd" by simp
    then show ?thesis
      using load_clicks_unsaved [OF seeded True] by simp
  next
    case False
    with h1 have "clicks_hash rd1 = clicks_hash rd ++ (map_option FormatInt \<circ> countryClicks s)"
      by simp
    then show ?thesis
      using load_clicks_saved [OF seeded] by simp
  qed
  have cc: "countryClicks s2 = load_clicks (clicks_hash rd1) Map.empty"
    and res: "res = None"
    using load fresh
    by (auto simp: loadFromRedis_def redis_HGetAll_def redis_Get_def redis_Set_def Let_def
        split: if_splits option.splits sum.splits RedisError.splits)
  have st: "startTime s2 =
         (if get_up then
            (case start_time_key rd of
               None \<Rightarrow> startTime s0
             | Some v \<Rightarrow> (case ParseInt v of Inr k \<Rightarrow> time_Unix k | Inl e \<Rightarrow> startTime s0))
          else startTime s0)"
    using load
    by (auto simp: loadFromRedis_def redis_HGetAll_def redis_Get_def redis_Set_def Let_def k1
        split: if_splits option.splits sum.splits RedisError.splits)
  have ep: "\<forall>k. get_up \<and> start_time_key rd = Some (FormatInt k) \<and> startTime s = time_Unix k
            \<longrightarrow> startTime s2 = startTime s"
    by (auto simp: st ParseInt_FormatInt)
  from res cc lc k1 st ep show ?thesis by simp
qed

text \<open>
  C4, amended, at a store with Brazil at 5 and the epoch 1 s, the hash holding \<open>2\<close> for
  Brazil and the epoch key holding \<open>1\<close>.
\<close>

theorem save_load_roundtrip_witness:
  "fst (saveToRedis True (incrementClicks ''Brazil'' 5 (new_storage 1000000000))
        (empty_redis\<lparr>clicks_hash := [''Brazil'' \<mapsto> ''2''], start_time_key := Some ''1''\<rparr>)) = None
   \<and> countryClicks (new_storage 99000000000) = Map.empty
   \<and> countryClicks (fst (snd (loadFromRedis True True True (new_storage 99000000000)
        (snd (snd (saveToRedis True (incrementClicks ''Brazil'' 5 (new_storage 1000000000))
           (empty_redis\<lparr>clicks_hash := [''Brazil'' \<mapsto> ''2''], start_time_key := Some ''1''\<rparr>)))))))
       = countryClicks (incrementClicks ''Brazil'' 5 (new_storage 1000000000))
   \<and> startTime (fst (snd (loadFromRedis True True True (new_storage 99000000000)
        (snd (snd (saveToRedis True (incrementClicks ''Brazil'' 5 (new_storage 1000000000))
           (empty_redis\<lparr>clicks_hash := [''Brazil'' \<mapsto> ''2''], start_time_key := Some ''1''\<rparr>)))))))
       = startTime (incrementClicks ''Brazil'' 5 (new_storage 1000000000))"
proof -
  let ?s = "incrementClicks ''Brazil'' 5 (new_storage 1000000000)"
  let ?rd = "empty_redis\<lparr>clicks_hash := [''Brazil'' \<mapsto> ''2''], start_time_key := Some ''1''\<rparr>"
  let ?S = "saveToRedis True ?s ?rd"
  let ?new = "new_storage 99000000000"
  let ?L = "loadFromRedis True True True ?new (snd (snd ?S))"
  have ok: "fst ?S = None"
    by (simp add: saveToRedis_def redis_HSet_def incrementClicks_def new_storage_def empty_redis_def)
  then have save: "?S = (None, fst (snd ?S), snd (snd ?S))"
    by (metis prod.collapse)
  have seeded: "\<forall>c v n. clicks_hash ?rd c = Some v \<longrightarrow> ParseInt v = Inr n
      \<longrightarrow> c \<in> dom (countryClicks ?s)"
    by (auto simp: empty_redis_def incrementClicks_def split: if_splits)
  have fresh: "countryClicks ?new = Map.empty"
    by (simp add: new_storage_def)
  have load: "?L = (fst ?L, fst (snd ?L), snd (snd ?L))"
    by simp
  have k1: "start_time_key ?rd = Some (FormatInt 1)"
    by (simp add: FormatInt_def digits.simps digit_char_def)
  have k2: "startTime ?s = time_Unix 1"
    by (simp add: time_Unix_def unixToInternal_def Second_def incrementClicks_def new_storage_def)
  from save_load_roundtrip [OF save seeded fresh load] k1 k2
  have "countryClicks (fst (snd ?L)) = countryClicks ?s"
    and "startTime (fst (snd ?L)) = startTime ?s"
    by blast+
  with ok fresh show ?thesis by blast
qed

subsection \<open>Leaderboard (C7)\<close>

text \<open>
  C7. Whatever order \<open>range\<close> yields the entries in and whatever \<open>sort.Slice\<close> does
  with equal counts, the leaderboard is the Worldwide row followed by one row per country
  of the store. The Worldwide row carries the total, the sum of all counts, and the rate:
  the total divided by the seconds elapsed since the start time when these are greater
  than zero, and zero otherwise. Every other row carries the count of its country and no
  rate, no country has two rows, and the rows are in descending order of count.
\<close>

theorem getLeaderboard_shape:
  assumes rng: "range_of (countryClicks s) kvs"
    and srt: "sorts_by by_clicks_desc (sort_Slice by_clicks_desc)"
  shows "\<exists>rows. getLeaderboard F sort_Slice kvs now s =
           \<lparr>Country = ''Worldwide'',
            Clicks = (\<Sum>c\<in>dom (countryClicks s). the (countryClicks s c)),
            KPS = (if f_greater F (f_Seconds F (Since now (startTime s))) (f_zero F)
                   then f_div F (f_of_int64 F (\<Sum>c\<in>dom (countryClicks s). the (countryClicks s c)))
                          (f_Seconds F (Since now (startTime s)))
                   else f_zero F)\<rparr> # rows
        \<and> distinct (map Country rows)
        \<and> set (map Country rows) = dom (countryClicks s)
        \<and> (\<forall>r\<in>set rows. countryClicks s (Country r) = Some (Clicks r) \<and> KPS r = f_zero F)
        \<and> sorted_wrt (\<lambda>a b. sint (Clicks b) \<le> sint (Clicks a)) rows"
  using sorted_rows(2-5) [where srt = "sort_Slice by_clicks_desc" and F = F, OF rng srt]
  by (simp add: getLeaderboard_eq range_of_sum [OF rng])

text \<open>
  C7, at Japan 3 and Brazil 5, two seconds after the start: Worldwide 8 at rate 4, then
  Brazil, then Japan.
\<close>

theorem getLeaderboard_shape_witness:
  "getLeaderboard exact_Float64 insertion_sort [(''Japan'', 3), (''Brazil'', 5)] 2000000000
      \<lparr>countryClicks = map_of [(''Japan'', 3), (''Brazil'', 5)], lastClickIP = Map.empty,
       startTime = 0, dirty = True\<rparr>
    = [\<lparr>Country = ''Worldwide'', Clicks = 8, KPS = 4\<rparr>,
       \<lparr>Country = ''Brazil'', Clicks = 5, KPS = 0\<rparr>,
       \<lparr>Country = ''Japan'', Clicks = 3, KPS = 0\<rparr>]
   \<and> set (map Country (tl (getLeaderboard exact_Float64 insertion_sort
        [(''Japan'', 3), (''Brazil'', 5)] 2000000000
        \<lparr>countryClicks = map_of [(''Japan'', 3), (''Brazil'', 5)], lastClickIP = Map.empty,
         startTime = 0, dirty = True\<rparr>)))
     = dom (map_of [(''Japan'', 3 :: int64), (''Brazil'', 5)])"
proof -
  let ?kvs = "[(''Japan'', 3 :: int64), (''Brazil'', 5)]"
  let ?s = "\<lparr>countryClicks = map_of ?kvs, lastClickIP = Map.empty, startTime = 0, dirty = True\<rparr>"
  let ?lb = "getLeaderboard exact_Float64 insertion_sort ?kvs 2000000000 ?s"
  have rng: "range_of (countryClicks ?s) ?kvs"
    by (simp add: range_of_def)
  have srt: "sorts_by by_clicks_desc (insertion_sort (by_clicks_desc :: real CountryStats \<Rightarrow> _))"
    by (rule insertion_sort_sorts)
  from getLeaderboard_shape [where sort_Slice = insertion_sort and F = exact_Float64
      and now = 2000000000, OF rng srt]
  obtain rows where "tl ?lb = rows" and "set (map Country rows) = dom (countryClicks ?s)"
    by (metis list.sel(3))
  then have keys: "set (map Country (tl ?lb)) = dom (map_of ?kvs)"
    by simp
  have "?lb = [\<lparr>Country = ''Worldwide'', Clicks = 8, KPS = 4\<rparr>,
       \<lparr>Country = ''Brazil'', Clicks = 5, KPS = 0\<rparr>,
       \<lparr>Country = ''Japan'', Clicks = 3, KPS = 0\<rparr>]"
    by (simp add: getLeaderboard_def Let_def exact_Float64_def by_clicks_desc_def
        Since_def Sub_def maxDuration_def minDuration_def)
  with keys show ?thesis by blast
qed

subsection \<open>Conservation (C1)\<close>

text \<open>
  C1. After any sequence of increments, the leaderboard has exactly one row for a country
  \<open>C\<close> that was in the store or has been incremented, and its count is the count \<open>C\<close>
  had before (0 when it was not in the store) plus the sum of the deltas of the increments
  for \<open>C\<close>. The count of the Worldwide row is the sum of the counts of all countries of
  the store. The sums are those of \<open>int64\<close>, as the code computes them; they are the
  sums of the integers when the counts and deltas are non-negative and these stay below
  \<open>2 ^ 63\<close>.
\<close>

theorem conservation:
  assumes rng: "range_of (countryClicks (increments incs s)) kvs"
    and srt: "sorts_by by_clicks_desc (sort_Slice by_clicks_desc)"
    and inC: "C \<in> dom (countryClicks s) \<or> C \<in> fst ` set incs"
  shows "filter (\<lambda>r. Country r = C) (tl (getLeaderboard F sort_Slice kvs now (increments incs s))) =
           [\<lparr>Country = C,
             Clicks = lookup0 (countryClicks s) C + sum_list (map snd (filter (\<lambda>kv. fst kv = C) incs)),
             KPS = f_zero F\<rparr>]
       \<and> Clicks (hd (getLeaderboard F sort_Slice kvs now (increments incs s))) =
           (\<Sum>c\<in>dom (countryClicks (increments incs s)). the (countryClicks (increments incs s) c))
       \<and> (0 \<le> sint (lookup0 (countryClicks s) C)
            \<and> (\<forall>kv\<in>set incs. 0 \<le> sint (snd kv))
            \<and> sint (lookup0 (countryClicks s) C)
                 + (\<Sum>kv\<leftarrow>filter (\<lambda>kv. fst kv = C) incs. sint (snd kv)) < 2 ^ 63
          \<longrightarrow> sint (lookup0 (countryClicks s) C + sum_list (map snd (filter (\<lambda>kv. fst kv = C) incs)))
                = sint (lookup0 (countryClicks s) C)
                  + (\<Sum>kv\<leftarrow>filter (\<lambda>kv. fst kv = C) incs. sint (snd kv)))
       \<and> ((\<forall>c\<in>dom (countryClicks (increments incs s)).
               0 \<le> sint (the (countryClicks (increments incs s) c)))
            \<and> (\<Sum>c\<in>dom (countryClicks (increments incs s)).
                  sint (the (countryClicks (increments incs s) c))) < 2 ^ 63
          \<longrightarrow> sint (Clicks (hd (getLeaderboard F sort_Slice kvs now (increments incs s))))
                = (\<Sum>c\<in>dom (countryClicks (increments incs s)).
                     sint (the (countryClicks (increments incs s) c))))"
proof -
  define v where "v = lookup0 (countryClicks s) C + sum_list (map snd (filter (\<lambda>kv. fst kv = C) incs))"
  define rows where "rows = sort_Slice by_clicks_desc (map (mkrow F) kvs)"
  from rng have d: "distinct (map fst kvs)" and m: "map_of kvs = countryClicks (increments incs s)"
    by (auto simp: range_of_def)
  have "map_of kvs C = Some v"
    using inC by (simp add: m increments_count v_def)
  with d have one: "filter (\<lambda>kv. fst kv = C) kvs = [(C, v)]"
    by (rule filter_key)
  have "mset (filter (\<lambda>r. Country r = C) rows)
      = mset (filter (\<lambda>r. Country r = C) (map (mkrow F) kvs))"
    using sorted_rows(1) [where srt = "sort_Slice by_clicks_desc" and F = F, OF rng srt]
    by (simp add: rows_def)
  also have "filter (\<lambda>r. Country r = C) (map (mkrow F) kvs) = map (mkrow F) (filter (\<lambda>kv. fst kv = C) kvs)"
    by (simp add: filter_map comp_def mkrow_def)
  also have "\<dots> = [mkrow F (C, v)]"
    by (simp add: one)
  finally have "mset (filter (\<lambda>r. Country r = C) rows) = {#mkrow F (C, v)#}"
    by simp
  then have "filter (\<lambda>r. Country r = C) rows = [mkrow F (C, v)]"
    by (simp only: mset_single_iff)
  then have row: "filter (\<lambda>r. Country r = C) (tl (getLeaderboard F sort_Slice kvs now (increments incs s))) =
           [\<lparr>Country = C, Clicks = v, KPS = f_zero F\<rparr>]"
    by (simp add: getLeaderboard_eq mkrow_def rows_def)
  have total: "Clicks (hd (getLeaderboard F sort_Slice kvs now (increments incs s))) = sum_list (map snd kvs)"
    by (simp add: getLeaderboard_eq)
  have int_row: "sint v = sint (lookup0 (countryClicks s) C)
                  + (\<Sum>kv\<leftarrow>filter (\<lambda>kv. fst kv = C) incs. sint (snd kv))"
    if "0 \<le> sint (lookup0 (countryClicks s) C)" "\<forall>kv\<in>set incs. 0 \<le> sint (snd kv)"
      "sint (lookup0 (countryClicks s) C)
         + (\<Sum>kv\<leftarrow>filter (\<lambda>kv. fst kv = C) incs. sint (snd kv)) < 2 ^ 63"
    unfolding v_def
    using that sint_sum_list [of "lookup0 (countryClicks s) C" "map snd (filter (\<lambda>kv. fst kv = C) incs)"]
    by (simp add: comp_def)
  have int_total: "sint (sum_list (map snd kvs)) = (\<Sum>c\<in>dom (countryClicks (increments incs s)).
                     sint (the (countryClicks (increments incs s) c)))"
    if "\<forall>c\<in>dom (countryClicks (increments incs s)). 0 \<le> sint (the (countryClicks (increments incs s) c))"
      "(\<Sum>c\<in>dom (countryClicks (increments incs s)).
                  sint (the (countryClicks (increments incs s) c))) < 2 ^ 63"
    using sint_total [OF rng that] .
  show ?thesis
    using row total int_row int_total range_of_sum [OF rng]
    by (simp add: v_def)
qed

text \<open>
  C1, at three increments of 1 for Japan on the new storage: Japan 3, Worldwide 3.
\<close>

theorem conservation_witness:
  "filter (\<lambda>r. Country r = ''Japan'')
      (tl (getLeaderboard exact_Float64 insertion_sort [(''Japan'', 3)] 2000000000
         (increments [(''Japan'', 1), (''Japan'', 1), (''Japan'', 1)] (new_storage 0))))
    = [\<lparr>Country = ''Japan'', Clicks = 3, KPS = 0\<rparr>]
   \<and> Clicks (hd (getLeaderboard exact_Float64 insertion_sort [(''Japan'', 3)] 2000000000
         (increments [(''Japan'', 1), (''Japan'', 1), (''Japan'', 1)] (new_storage 0)))) = 3
   \<and> sint (lookup0 (countryClicks (new_storage 0)) ''Japan''
        + sum_list (map snd (filter (\<lambda>kv. fst kv = ''Japan'')
            [(''Japan'', 1 :: int64), (''Japan'', 1), (''Japan'', 1)]))) = 3"
proof -
  let ?incs = "[(''Japan'', 1 :: int64), (''Japan'', 1), (''Japan'', 1)]"
  let ?kvs = "[(''Japan'', 3 :: int64)]"
  let ?lb = "getLeaderboard exact_Float64 insertion_sort ?kvs 2000000000
         (increments ?incs (new_storage 0))"
  have rng: "range_of (countryClicks (increments ?incs (new_storage 0))) ?kvs"
    by (simp add: range_of_def increments_def incrementClicks_def lookup0_def new_storage_def)
  have srt: "sorts_by by_clicks_desc (insertion_sort (by_clicks_desc :: real CountryStats \<Rightarrow> _))"
    by (rule insertion_sort_sorts)
  have inC: "''Japan'' \<in> dom (countryClicks (new_storage 0)) \<or> ''Japan'' \<in> fst ` set ?incs"
    by simp
  have small: "0 \<le> sint (lookup0 (countryClicks (new_storage 0)) ''Japan'')
      \<and> (\<forall>kv\<in>set ?incs. 0 \<le> sint (snd kv))
      \<and> sint (lookup0 (countryClicks (new_storage 0)) ''Japan'')
           + (\<Sum>kv\<leftarrow>filter (\<lambda>kv. fst kv = ''Japan'') ?incs. sint (snd kv)) < 2 ^ 63"
    by (simp add: lookup0_def new_storage_def)
  note inst = conservation [where sort_Slice = insertion_sort and F = exact_Float64
      and now = 2000000000, OF rng srt inC]
  from inst
  have "filter (\<lambda>r. Country r = ''Japan'') (tl ?lb)
      = [\<lparr>Country = ''Japan'',
          Clicks = lookup0 (countryClicks (new_storage 0)) ''Japan''
             + sum_list (map snd (filter (\<lambda>kv. fst kv = ''Japan'') ?incs)),
          KPS = f_zero exact_Float64\<rparr>]"
    by blast
  then have row: "filter (\<lambda>r. Country r = ''Japan'') (tl ?lb)
      = [\<lparr>Country = ''Japan'', Clicks = 3, KPS = 0\<rparr>]"
    by (simp add: lookup0_def new_storage_def exact_Float64_def)
  from inst small
  have "sint (lookup0 (countryClicks (new_storage 0)) ''Japan''
        + sum_list (map snd (filter (\<lambda>kv. fst kv = ''Japan'') ?incs)))
      = sint (lookup0 (countryClicks (new_storage 0)) ''Japan'')
        + (\<Sum>kv\<leftarrow>filter (\<lambda>kv. fst kv = ''Japan'') ?incs. sint (snd kv))"
    by blast
  then have int_row: "sint (lookup0 (countryClicks (new_storage 0)) ''Japan''
        + sum_list (map snd (filter (\<lambda>kv. fst kv = ''Japan'') ?incs))) = 3"
    by (simp add: lookup0_def new_storage_def)
  have "Clicks (hd ?lb) = 3"
    by (simp add: getLeaderboard_def Let_def)
  with row int_row show ?thesis by blast
qed

end
